theory Spec2Isabelle
  imports Main
begin

section \<open>Signal expressions (engine/node.py, class SignalAST)\<close>

text \<open>
  Modelled from the spec: \<^verbatim>\<open>engine/constants.py\<close> is not among the sources. Its
  enumerations are given the members the engine uses: \<^verbatim>\<open>Status\<close> carries the
  lifecycle states of a node and the two outcomes a message reports;
  \<^verbatim>\<open>ASTOperation\<close> the four operators of a signal expression.
\<close>

datatype Status = OFF | INIT | RUNNING | PAUSED | STOPPING | EXITED | ERROR | SUCCESS | FAILURE

datatype ASTOperation = NOT | AND | OR | XOR

text \<open>
  The exceptions the engine can raise, as values. A hook of the user raises
  \<open>HookError\<close> (any instance of \<^verbatim>\<open>Exception\<close>, identified by its text).
\<close>

datatype error =
    AssertionError
  | TypeError
  | ValueError
  | ValidationError
  | RuntimeError
  | InvalidNodeDependencyError
  | HookError string

text \<open>
  What a caller may hand over where a string is expected: a string, \<^verbatim>\<open>None\<close>, or
  some other object (named by its class). \<^verbatim>\<open>DirWatchNode\<close> of
  \<^verbatim>\<open>resource/filesystem.py\<close> passes its logger, \<^verbatim>\<open>None\<close> by default, in the
  place of the signal type.
\<close>

datatype pyvalue = PyStr string | PyNone | PyObject string

text \<open>
  \<^verbatim>\<open>class Message(BaseModel)\<close>: sender, signal type, timestamp and the optional
  status. The timestamp is a clock reading.
\<close>

record Message =
  sender :: string
  msg_signal_type :: string
  timestamp :: nat
  msg_status :: "Status option"

text \<open>
  The constructor of \<^verbatim>\<open>Message\<close> validates its fields: \<^verbatim>\<open>signal_type: str\<close> takes a
  string and nothing else, and a value that is not one raises the validation error
  of pydantic. The sender is the name of a node, a string.
\<close>

definition validate_str :: "pyvalue \<Rightarrow> error + string" where
  "validate_str v = (case v of PyStr s \<Rightarrow> Inr s | PyNone \<Rightarrow> Inl ValidationError
     | PyObject c \<Rightarrow> Inl ValidationError)"

definition Message_init :: "string \<Rightarrow> pyvalue \<Rightarrow> nat \<Rightarrow> Status option \<Rightarrow> error + Message" where
  "Message_init from_node sig_type ts st =
     (case validate_str sig_type of
        Inl e \<Rightarrow> Inl e
      | Inr s \<Rightarrow>
          Inr \<lparr>sender = from_node, msg_signal_type = s, timestamp = ts, msg_status = st\<rparr>)"

text \<open>
  A \<^verbatim>\<open>SignalAST\<close> holds an operation and a list of parameters; a parameter is either a
  node, which the evaluation reads through its name only, or a nested expression.
\<close>

datatype SignalAST = SignalAST (operation: ASTOperation) (parameters: "param list")
  and param = PNode string | PAST SignalAST

text \<open>
  \<^verbatim>\<open>param.name in received and received[param.name].status == Status.SUCCESS\<close>
\<close>

definition leaf_value :: "(string \<rightharpoonup> Message) \<Rightarrow> string \<Rightarrow> bool" where
  "leaf_value received nm =
     (case received nm of None \<Rightarrow> False | Some m \<Rightarrow> msg_status m = Some SUCCESS)"

text \<open>
  The reduction of the XOR branch, \<^verbatim>\<open>reduce(lambda x, y: x^x, evaluated_params)\<close>:
  \<open>reduce\<close> without an initial value raises \<^verbatim>\<open>TypeError\<close> on an empty sequence,
  and otherwise folds from the left starting with the first element. On booleans
  \<^verbatim>\<open>^\<close> is exclusive or, which is \<open>\<noteq>\<close>; the function given to \<open>reduce\<close> combines its
  first argument with itself and ignores the second.
\<close>

definition xor_step :: "bool \<Rightarrow> bool \<Rightarrow> bool" where
  "xor_step x y = (x \<noteq> x)"

definition reduce_xor :: "bool list \<Rightarrow> error + bool" where
  "reduce_xor evaluated_params =
     (case evaluated_params of
        [] \<Rightarrow> Inl TypeError
      | x # xs \<Rightarrow> Inr (foldl xor_step x xs))"

text \<open>
  The branch on the operation, after the parameters have been evaluated. The final
  \<^verbatim>\<open>else: raise ValueError\<close> of the source has no operation left to reach it.
\<close>

definition apply_operation :: "ASTOperation \<Rightarrow> bool list \<Rightarrow> error + bool" where
  "apply_operation opn evaluated_params =
     (case opn of
        NOT \<Rightarrow> (if length evaluated_params = 1 then Inr (\<not> evaluated_params ! 0)
                else Inl AssertionError)
      | AND \<Rightarrow> Inr (list_all (\<lambda>b. b) evaluated_params)
      | OR \<Rightarrow> Inr (list_ex (\<lambda>b. b) evaluated_params)
      | XOR \<Rightarrow> reduce_xor evaluated_params)"

text \<open>
  \<^verbatim>\<open>SignalAST.evaluate\<close>: the loop over the parameters collects their values in order
  (an exception raised by a nested evaluation leaves the loop at once), then the
  operation is applied. The node enters only through its received-signal map.
\<close>

fun evaluate :: "SignalAST \<Rightarrow> (string \<rightharpoonup> Message) \<Rightarrow> error + bool"
  and evaluate_params :: "param list \<Rightarrow> (string \<rightharpoonup> Message) \<Rightarrow> error + bool list"
  and evaluate_param :: "param \<Rightarrow> (string \<rightharpoonup> Message) \<Rightarrow> error + bool"
where
  "evaluate (SignalAST opn ps) received =
     (case evaluate_params ps received of
        Inl e \<Rightarrow> Inl e
      | Inr evaluated_params \<Rightarrow> apply_operation opn evaluated_params)"
| "evaluate_params [] received = Inr []"
| "evaluate_params (p # ps) received =
     (case evaluate_param p received of
        Inl e \<Rightarrow> Inl e
      | Inr v \<Rightarrow>
          (case evaluate_params ps received of
             Inl e \<Rightarrow> Inl e
           | Inr vs \<Rightarrow> Inr (v # vs)))"
| "evaluate_param (PAST a) received = evaluate a received"
| "evaluate_param (PNode nm) received = Inr (leaf_value received nm)"

text \<open>The constructors \<^verbatim>\<open>Not\<close>, \<^verbatim>\<open>And\<close>, \<^verbatim>\<open>Or\<close> and \<^verbatim>\<open>XOr\<close>; none of them checks its arguments.\<close>

definition Not_ast :: "param \<Rightarrow> SignalAST" where
  "Not_ast n = SignalAST NOT [n]"

definition And_ast :: "param list \<Rightarrow> SignalAST" where
  "And_ast args = SignalAST AND args"

definition Or_ast :: "param list \<Rightarrow> SignalAST" where
  "Or_ast args = SignalAST OR args"

definition XOr_ast :: "param list \<Rightarrow> SignalAST" where
  "XOr_ast args = SignalAST XOR args"

text \<open>
  \<^verbatim>\<open>SignalAST._nodes\<close> yields the nodes of the expression in order, and
  \<^verbatim>\<open>SignalAST.nodes\<close> collects them in a set.
\<close>

fun nodes_gen :: "SignalAST \<Rightarrow> string list"
  and nodes_gen_params :: "param list \<Rightarrow> string list"
  and nodes_gen_param :: "param \<Rightarrow> string list"
where
  "nodes_gen (SignalAST opn ps) = nodes_gen_params ps"
| "nodes_gen_params [] = []"
| "nodes_gen_params (p # ps) = nodes_gen_param p @ nodes_gen_params ps"
| "nodes_gen_param (PAST a) = nodes_gen a"
| "nodes_gen_param (PNode nm) = [nm]"

definition nodes_of :: "SignalAST \<Rightarrow> string set" where
  "nodes_of a = set (nodes_gen a)"

section \<open>The node runtime (engine/node.py, class BaseNode)\<close>

text \<open>
  The fields of a \<^verbatim>\<open>BaseNode\<close> that its worker reads and writes. Other nodes are
  referred to by name: \<open>dependent_nodes\<close> and \<open>successors\<close> hold names, and the
  queue \<open>incoming_signals\<close> is a list whose head is the oldest message.
\<close>

record BaseNode =
  name :: string
  signal_type :: pyvalue
  auto_trigger :: bool
  triggered :: bool
  status :: Status
  dependent_nodes :: "string set"
  signal_ast :: SignalAST
  successors :: "string list"
  incoming_signals :: "Message list"
  received_signals :: "string \<rightharpoonup> Message"
  waiting :: bool

text \<open>
  \<^verbatim>\<open>BaseNode.__init__\<close>: the items of \<^verbatim>\<open>listen_to\<close> are joined by \<^verbatim>\<open>And\<close>, and the
  dependent nodes are the nodes of the items. The constructor also appends the new
  node to the successor list of each dependent node; that write is to other nodes
  and is not part of this record.
\<close>

definition item_nodes :: "param \<Rightarrow> string set" where
  "item_nodes item = (case item of PAST a \<Rightarrow> nodes_of a | PNode nm \<Rightarrow> {nm})"

definition BaseNode_init :: "string \<Rightarrow> pyvalue \<Rightarrow> param list \<Rightarrow> bool \<Rightarrow> BaseNode" where
  "BaseNode_init nm sig_type listen_to auto =
     \<lparr>name = nm,
      signal_type = sig_type,
      auto_trigger = auto,
      triggered = auto,
      status = OFF,
      dependent_nodes = fold (\<lambda>item acc. acc \<union> item_nodes item) listen_to {},
      signal_ast = And_ast listen_to,
      successors = [],
      incoming_signals = [],
      received_signals = Map.empty,
      waiting = False\<rparr>"

text \<open>
  The loop of \<^verbatim>\<open>check_signals\<close> that empties the queue: each message is stored under
  its sender, so a later message replaces an earlier one of the same sender.
\<close>

fun drain :: "Message list \<Rightarrow> (string \<rightharpoonup> Message) \<Rightarrow> (string \<rightharpoonup> Message)" where
  "drain [] received = received"
| "drain (sig # queue) received = drain queue (received(sender sig \<mapsto> sig))"

text \<open>
  The body of \<^verbatim>\<open>BaseNode.check_signals\<close>. With dependent nodes and an empty queue it
  returns \<^verbatim>\<open>False\<close> at once; with a non-empty queue it drains the queue and
  evaluates the expression; without dependent nodes it returns \<^verbatim>\<open>True\<close>. An
  exception of the evaluation leaves the node with its queue already drained.
\<close>

definition check_signals :: "BaseNode \<Rightarrow> (error + bool) \<times> BaseNode" where
  "check_signals n =
     (if dependent_nodes n \<noteq> {} then
        (if incoming_signals n = [] then (Inr False, n)
         else
           (let n' = n\<lparr>received_signals := drain (incoming_signals n) (received_signals n),
                       incoming_signals := []\<rparr>
            in (evaluate (signal_ast n') (received_signals n'), n')))
      else (Inr True, n))"

text \<open>\<^verbatim>\<open>reset_trigger\<close>, \<^verbatim>\<open>trigger\<close> and the setter of the \<^verbatim>\<open>status\<close> property.\<close>

definition reset_trigger :: "BaseNode \<Rightarrow> BaseNode" where
  "reset_trigger n = (if auto_trigger n = False then n\<lparr>triggered := False\<rparr> else n)"

definition trigger :: "BaseNode \<Rightarrow> BaseNode" where
  "trigger n = n\<lparr>triggered := True\<rparr>"

subsection \<open>The worker: hooks, calls and the ghost record of calls\<close>

text \<open>
  A hook is code of the user. It works on a state of its own, \<open>'u\<close>, and either returns
  a value or raises; what it wrote before raising stays written. The overridable
  methods of \<^verbatim>\<open>BaseNode\<close> are the fields of \<open>hooks\<close>.
\<close>

type_synonym ('u, 'a) hook = "'u \<Rightarrow> (error + 'a) \<times> 'u"

record 'u hooks =
  hook_setup :: "('u, unit) hook"
  hook_pre_trigger :: "('u, bool) hook"
  hook_pre_execution :: "('u, unit) hook"
  hook_execute :: "('u, bool) hook"
  hook_post_execution :: "('u, unit) hook"
  hook_on_success :: "('u, unit) hook"
  hook_on_failure :: "error option \<Rightarrow> ('u, unit) hook"
  hook_on_exit :: "('u, unit) hook"

text \<open>The method bodies of \<^verbatim>\<open>BaseNode\<close> itself: every hook passes, \<^verbatim>\<open>pre_trigger\<close> and
  \<^verbatim>\<open>execute\<close> return \<^verbatim>\<open>True\<close>.\<close>

definition passes :: "('u, unit) hook" where
  "passes u = (Inr (), u)"

definition returns_value :: "'a \<Rightarrow> ('u, 'a) hook" where
  "returns_value a u = (Inr a, u)"

definition raises :: "error \<Rightarrow> ('u, 'a) hook" where
  "raises e u = (Inl e, u)"

definition default_hooks :: "'u hooks" where
  "default_hooks =
     \<lparr>hook_setup = passes,
      hook_pre_trigger = returns_value True,
      hook_pre_execution = passes,
      hook_execute = returns_value True,
      hook_post_execution = passes,
      hook_on_success = passes,
      hook_on_failure = (\<lambda>e. passes),
      hook_on_exit = passes\<rparr>"

text \<open>
  What the worker does, in the order it does it: the ghost field \<open>calls\<close> of the
  worker state records every assignment to the status, every hook entered, every
  round of emission and the message printed when \<^verbatim>\<open>setup\<close> fails.
\<close>

datatype event =
    StatusSet Status
  | Setup
  | PreTrigger
  | CheckSignals
  | PreExecution
  | Execute
  | OnSuccess
  | OnFailure "error option"
  | PostExecution
  | SendSignals Status
  | OnExit
  | PrintSetupFailed error

text \<open>
  The state one worker runs in: its node, the state of its hooks, the queues of the
  other nodes (by name), the clock that \<^verbatim>\<open>datetime.now()\<close> reads, and the ghost record.
\<close>

record 'u worker =
  node :: BaseNode
  user :: 'u
  mail :: "string \<Rightarrow> Message list"
  clock :: nat
  calls :: "event list"

text \<open>
  A step of the worker returns, raises or blocks; the state is kept in all three
  cases.
\<close>

datatype 'a result = Returns 'a | Raises error | Blocks

type_synonym ('u, 'a) action = "'u worker \<Rightarrow> 'a result \<times> 'u worker"

definition then_do :: "('u, 'a) action \<Rightarrow> ('a \<Rightarrow> ('u, 'b) action) \<Rightarrow> ('u, 'b) action" where
  "then_do m k w =
     (case m w of
        (Returns a, w') \<Rightarrow> k a w'
      | (Raises e, w') \<Rightarrow> (Raises e, w')
      | (Blocks, w') \<Rightarrow> (Blocks, w'))"

definition try_except :: "('u, 'a) action \<Rightarrow> (error \<Rightarrow> ('u, 'a) action) \<Rightarrow> ('u, 'a) action" where
  "try_except body handler w =
     (case body w of
        (Raises e, w') \<Rightarrow> handler e w'
      | (Returns a, w') \<Rightarrow> (Returns a, w')
      | (Blocks, w') \<Rightarrow> (Blocks, w'))"

definition call_hook :: "event \<Rightarrow> ('u, 'a) hook \<Rightarrow> ('u, 'a) action" where
  "call_hook ev h w =
     (case h (user w) of
        (Inl e, u') \<Rightarrow> (Raises e, w\<lparr>user := u', calls := calls w @ [ev]\<rparr>)
      | (Inr a, u') \<Rightarrow> (Returns a, w\<lparr>user := u', calls := calls w @ [ev]\<rparr>))"

definition assign_status :: "Status \<Rightarrow> 'u worker \<Rightarrow> 'u worker" where
  "assign_status st w = w\<lparr>node := (node w)\<lparr>status := st\<rparr>, calls := calls w @ [StatusSet st]\<rparr>"

definition set_waiting :: "bool \<Rightarrow> ('u, unit) action" where
  "set_waiting b w = (Returns (), w\<lparr>node := (node w)\<lparr>waiting := b\<rparr>\<rparr>)"

text \<open>
  The decorator \<^verbatim>\<open>pausable\<close>: \<^verbatim>\<open>while self.status == Status.PAUSED: time.sleep(0.1)\<close>
  before the decorated method runs. Only another thread can change the status
  meanwhile; within one worker the loop ends at once or never, and never is \<open>None\<close>.
\<close>

partial_function (option) pausable_wait :: "Status \<Rightarrow> unit option" where
  "pausable_wait st = (if st = PAUSED then pausable_wait st else Some ())"

definition pausable :: "('u, 'a) action \<Rightarrow> ('u, 'a) action" where
  "pausable f w =
     (case pausable_wait (status (node w)) of
        None \<Rightarrow> (Blocks, w)
      | Some _ \<Rightarrow> f w)"

text \<open>
  \<^verbatim>\<open>send_signals\<close>: one message is built and put on the queue of each successor, in
  the order of the list. If the message cannot be built, the exception leaves
  \<^verbatim>\<open>send_signals\<close> before anything is put on a queue.
\<close>

definition put_all :: "string list \<Rightarrow> Message \<Rightarrow> (string \<Rightarrow> Message list) \<Rightarrow> (string \<Rightarrow> Message list)" where
  "put_all recipients msg queues = fold (\<lambda>n q. q(n := q n @ [msg])) recipients queues"

definition signal_message :: "'u worker \<Rightarrow> Status \<Rightarrow> error + Message" where
  "signal_message w st =
     Message_init (name (node w)) (signal_type (node w)) (clock w) (Some st)"

definition send_signals :: "Status \<Rightarrow> ('u, unit) action" where
  "send_signals st w =
     (case signal_message w st of
        Inl e \<Rightarrow> (Raises e, w\<lparr>calls := calls w @ [SendSignals st]\<rparr>)
      | Inr msg \<Rightarrow>
          (Returns (),
           w\<lparr>mail := put_all (successors (node w)) msg (mail w),
             calls := calls w @ [SendSignals st]\<rparr>))"

definition run_check_signals :: "('u, bool) action" where
  "run_check_signals w =
     (case check_signals (node w) of
        (Inl e, n') \<Rightarrow> (Raises e, w\<lparr>node := n', calls := calls w @ [CheckSignals]\<rparr>)
      | (Inr b, n') \<Rightarrow> (Returns b, w\<lparr>node := n', calls := calls w @ [CheckSignals]\<rparr>))"

definition run_reset_trigger :: "('u, unit) action" where
  "run_reset_trigger w = (Returns (), w\<lparr>node := reset_trigger (node w)\<rparr>)"

subsection \<open>The method run\<close>

text \<open>
  The \<^verbatim>\<open>try\<close> statement around \<^verbatim>\<open>execute\<close>. Its body holds the call of \<^verbatim>\<open>execute\<close>
  and both branches on the returned value; the handler calls \<^verbatim>\<open>on_failure\<close> with the
  exception, \<^verbatim>\<open>post_execution\<close> and \<^verbatim>\<open>send_signals\<close>. An exception raised inside the
  handler is not caught again.
\<close>

definition try_body :: "'u hooks \<Rightarrow> ('u, unit) action" where
  "try_body h =
     then_do (pausable (call_hook Execute (hook_execute h))) (\<lambda>ret.
       if ret then
         then_do (pausable (call_hook OnSuccess (hook_on_success h))) (\<lambda>_.
         then_do (pausable (call_hook PostExecution (hook_post_execution h))) (\<lambda>_.
         pausable (send_signals SUCCESS)))
       else
         then_do (pausable (call_hook (OnFailure None) (hook_on_failure h None))) (\<lambda>_.
         then_do (pausable (call_hook PostExecution (hook_post_execution h))) (\<lambda>_.
         pausable (send_signals FAILURE))))"

definition failure_handler :: "'u hooks \<Rightarrow> error \<Rightarrow> ('u, unit) action" where
  "failure_handler h e =
     then_do (pausable (call_hook (OnFailure (Some e)) (hook_on_failure h (Some e)))) (\<lambda>_.
     then_do (pausable (call_hook PostExecution (hook_post_execution h))) (\<lambda>_.
     pausable (send_signals FAILURE)))"

definition execute_phase :: "'u hooks \<Rightarrow> ('u, unit) action" where
  "execute_phase h = try_except (try_body h) (failure_handler h)"

text \<open>
  One pass through the body of \<^verbatim>\<open>while True\<close>. \<open>Continue\<close> is the next pass (after
  \<^verbatim>\<open>continue\<close>, or after the final \<^verbatim>\<open>time.sleep\<close>), \<open>Break\<close> leaves the loop.
\<close>

datatype flow = Continue | Break

definition exit_check :: "('u, flow) action" where
  "exit_check w = (if status (node w) = EXITED then (Returns Break, w) else (Returns Continue, w))"

definition continue_stmt :: "('u, flow) action" where
  "continue_stmt w = (Returns Continue, w)"

definition running_branch :: "'u hooks \<Rightarrow> ('u, flow) action" where
  "running_branch h =
     then_do (pausable (call_hook PreTrigger (hook_pre_trigger h))) (\<lambda>ready.
       if ready = False then then_do (set_waiting True) (\<lambda>_. continue_stmt)
       else
         then_do (set_waiting False) (\<lambda>_ w.
           if triggered (node w) then
             then_do (pausable run_check_signals) (\<lambda>ok.
               if ok = False then then_do (set_waiting True) (\<lambda>_. continue_stmt)
               else
                 then_do (set_waiting False) (\<lambda>_.
                 then_do (pausable (call_hook PreExecution (hook_pre_execution h))) (\<lambda>_.
                 then_do (execute_phase h) (\<lambda>_.
                 then_do run_reset_trigger (\<lambda>_.
                 exit_check))))) w
           else exit_check w))"

definition loop_body :: "'u hooks \<Rightarrow> ('u, flow) action" where
  "loop_body h w =
     (if status (node w) = RUNNING then running_branch h w
      else if status (node w) = PAUSED then exit_check w
      else if status (node w) = STOPPING then
        then_do (call_hook OnExit (hook_on_exit h)) (\<lambda>_ w'.
          exit_check (assign_status EXITED w')) w
      else exit_check w)"

text \<open>
  Between two passes other threads may act on the node: \<^verbatim>\<open>pause\<close>, \<^verbatim>\<open>resume\<close>,
  \<^verbatim>\<open>stop\<close> and \<^verbatim>\<open>trigger\<close> are called from outside, a predecessor puts a message on
  the queue, time passes. The schedule lists what happens before each pass; it is
  also the fuel of the loop, which by itself need not end.
\<close>

datatype env = Idle | Pause | Resume | Stop | Trigger | Deliver Message | Tick

definition apply_env :: "env \<Rightarrow> 'u worker \<Rightarrow> 'u worker" where
  "apply_env a w =
     (case a of
        Idle \<Rightarrow> w
      | Pause \<Rightarrow> assign_status PAUSED w
      | Resume \<Rightarrow> assign_status RUNNING w
      | Stop \<Rightarrow> assign_status STOPPING w
      | Trigger \<Rightarrow> w\<lparr>node := trigger (node w)\<rparr>
      | Deliver m \<Rightarrow> w\<lparr>node := (node w)\<lparr>incoming_signals := incoming_signals (node w) @ [m]\<rparr>\<rparr>
      | Tick \<Rightarrow> w\<lparr>clock := Suc (clock w)\<rparr>)"

text \<open>
  How a run of the worker ends: \<^verbatim>\<open>run\<close> returned, an exception left \<^verbatim>\<open>run\<close> (the
  thread ends with it), the worker is blocked, or the schedule is used up with the
  loop still going.
\<close>

datatype 'u outcome =
    Returned "'u worker"
  | Died error "'u worker"
  | Blocked "'u worker"
  | StillRunning "'u worker"

fun run_loop :: "'u hooks \<Rightarrow> env list \<Rightarrow> 'u worker \<Rightarrow> 'u outcome" where
  "run_loop h [] w = StillRunning w"
| "run_loop h (a # schedule) w =
     (case loop_body h (apply_env a w) of
        (Returns Break, w') \<Rightarrow> Returned w'
      | (Returns Continue, w') \<Rightarrow> run_loop h schedule w'
      | (Raises e, w') \<Rightarrow> Died e w'
      | (Blocks, w') \<Rightarrow> Blocked w')"

text \<open>
  \<^verbatim>\<open>BaseNode.run\<close>: the status becomes \<^verbatim>\<open>INIT\<close>, \<^verbatim>\<open>setup\<close> runs; if it raises, the
  failure is printed, the status becomes \<^verbatim>\<open>ERROR\<close> and \<^verbatim>\<open>run\<close> returns; otherwise the
  status becomes \<^verbatim>\<open>RUNNING\<close> and the loop starts.
\<close>

definition run :: "'u hooks \<Rightarrow> env list \<Rightarrow> 'u worker \<Rightarrow> 'u outcome" where
  "run h schedule w =
     (case call_hook Setup (hook_setup h) (assign_status INIT w) of
        (Raises e, w') \<Rightarrow>
          Returned (assign_status ERROR (w'\<lparr>calls := calls w' @ [PrintSetupFailed e]\<rparr>))
      | (Returns _, w') \<Rightarrow> run_loop h schedule (assign_status RUNNING w')
      | (Blocks, w') \<Rightarrow> Blocked w')"

section \<open>The resource node (engine/node.py, class ResourceNode)\<close>

text \<open>
  A \<^verbatim>\<open>ResourceNode\<close> is a \<^verbatim>\<open>BaseNode\<close> with an event and a count of references.
  \<open>event_is_set\<close> is the flag of the \<^verbatim>\<open>threading.Event\<close>. The two re-entrant locks only
  order the threads among themselves and have no state a single thread can see.
\<close>

record ResourceNode = BaseNode +
  event_is_set :: bool
  reference_count :: int

text \<open>\<^verbatim>\<open>ResourceNode.__init__\<close>: no node to listen to, no automatic trigger, the event
  clear, no reference.\<close>

definition ResourceNode_init :: "string \<Rightarrow> pyvalue \<Rightarrow> ResourceNode" where
  "ResourceNode_init nm sig_type =
     BaseNode.extend (BaseNode_init nm sig_type [] False)
       (ResourceNode.fields False 0)"

text \<open>A method of the resource node: it returns or raises, and leaves a node behind.\<close>

type_synonym 'r resource_method = "ResourceNode \<Rightarrow> (error + 'r) \<times> ResourceNode"

text \<open>
  The decorator \<^verbatim>\<open>await_references\<close>. \<^verbatim>\<open>self.event.wait()\<close> returns when the flag is
  set; with the flag clear it blocks until another thread sets it, which is \<open>None\<close>
  here. Then the decorated method runs, and after it has returned the flag is
  cleared if it is set. An exception of the method leaves the wrapper before the
  flag is looked at.
\<close>

definition await_references ::
  "'r resource_method \<Rightarrow> ResourceNode \<Rightarrow> ((error + 'r) \<times> ResourceNode) option" where
  "await_references func s =
     (if event_is_set s then
        (case func s of
           (Inl e, s') \<Rightarrow> Some (Inl e, s')
         | (Inr res, s') \<Rightarrow>
             Some (Inr res, if event_is_set s' then s'\<lparr>event_is_set := False\<rparr> else s'))
      else None)"

text \<open>
  The decorator \<^verbatim>\<open>exeternally_accessible\<close>: the count goes up by one, the method
  runs, the count goes down by one, and the event is set when the count is zero
  then. An exception of the method leaves the wrapper with the count still raised.
\<close>

definition exeternally_accessible :: "'r resource_method \<Rightarrow> 'r resource_method" where
  "exeternally_accessible func s =
     (case func (s\<lparr>reference_count := reference_count s + 1\<rparr>) of
        (Inl e, s') \<Rightarrow> (Inl e, s')
      | (Inr res, s') \<Rightarrow>
          (let s'' = s'\<lparr>reference_count := reference_count s' - 1\<rparr>
           in (Inr res, if reference_count s'' = 0 then s''\<lparr>event_is_set := True\<rparr> else s'')))"

text \<open>
  \<^verbatim>\<open>DirWatchNode.__init__\<close> of \<^verbatim>\<open>resource/filesystem.py\<close> calls
  \<^verbatim>\<open>super().__init__(name, logger)\<close>: the logger stands where \<^verbatim>\<open>ResourceNode\<close> takes
  the signal type. The path and the observer play no part in the signals.
\<close>

definition DirWatchNode_init :: "string \<Rightarrow> string \<Rightarrow> pyvalue \<Rightarrow> ResourceNode" where
  "DirWatchNode_init nm path logger = ResourceNode_init nm logger"

section \<open>The pipeline (engine/pipeline.py, class Pipeline)\<close>

text \<open>
  Modelled from the spec: \<^verbatim>\<open>nx.DiGraph\<close> belongs to the library networkx, which is not
  part of the repository. A directed graph keeps its nodes and its edges in the order
  of insertion and holds none twice; \<^verbatim>\<open>add_edge\<close> adds the end points that are not
  nodes yet, and \<^verbatim>\<open>successors\<close> lists the heads of the edges that leave a node. Nodes
  are identified by their names.
\<close>

record DiGraph =
  g_nodes :: "string list"
  g_edges :: "(string \<times> string) list"

definition empty_graph :: DiGraph where
  "empty_graph = \<lparr>g_nodes = [], g_edges = []\<rparr>"

definition add_node :: "string \<Rightarrow> DiGraph \<Rightarrow> DiGraph" where
  "add_node v g = (if v \<in> set (g_nodes g) then g else g\<lparr>g_nodes := g_nodes g @ [v]\<rparr>)"

definition add_edge :: "string \<Rightarrow> string \<Rightarrow> DiGraph \<Rightarrow> DiGraph" where
  "add_edge u v g =
     (let g' = add_node v (add_node u g)
      in if (u, v) \<in> set (g_edges g') then g' else g'\<lparr>g_edges := g_edges g' @ [(u, v)]\<rparr>)"

definition graph_successors :: "DiGraph \<Rightarrow> string \<Rightarrow> string list" where
  "graph_successors g v = map snd (filter (\<lambda>e. fst e = v) (g_edges g))"

text \<open>
  Modelled from the spec: \<^verbatim>\<open>nx.topological_sort\<close> and
  \<^verbatim>\<open>nx.is_directed_acyclic_graph\<close> belong to networkx as well. The sort takes, again
  and again, the first remaining node that has no edge from a remaining node; it
  fails (\<open>None\<close>) when nodes remain and none of them can be taken. The graph counts
  as acyclic when the sort does not fail.
\<close>

definition ready :: "(string \<times> string) list \<Rightarrow> string list \<Rightarrow> string \<Rightarrow> bool" where
  "ready es remaining v = (\<not> list_ex (\<lambda>e. snd e = v \<and> fst e \<in> set remaining) es)"

function topological_order ::
  "(string \<times> string) list \<Rightarrow> string list \<Rightarrow> string list option" where
  "topological_order es remaining =
     (if remaining = [] then Some []
      else
        (case find (ready es remaining) remaining of
           None \<Rightarrow> None
         | Some v \<Rightarrow> map_option (Cons v) (topological_order es (removeAll v remaining))))"
  by pat_completeness auto
termination
proof (relation "measure (\<lambda>(es, remaining). length remaining)")
  show "wf (measure (\<lambda>(es, remaining). length remaining))" by simp
next
  fix es :: "(string \<times> string) list" and remaining :: "string list" and v
  assume "remaining \<noteq> []" and "find (ready es remaining) remaining = Some v"
  then have "v \<in> set remaining"
    by (auto simp: find_Some_iff)
  then have "length (removeAll v remaining) < length remaining"
    by (simp add: length_removeAll_less)
  then show "((es, removeAll v remaining), (es, remaining))
      \<in> measure (\<lambda>(es, remaining). length remaining)"
    by simp
qed

declare topological_order.simps [simp del]

definition topological_sort :: "DiGraph \<Rightarrow> string list option" where
  "topological_sort g = topological_order (g_edges g) (g_nodes g)"

definition is_directed_acyclic_graph :: "DiGraph \<Rightarrow> bool" where
  "is_directed_acyclic_graph g = (topological_sort g \<noteq> None)"

text \<open>
  Modelled from the spec: the class \<^verbatim>\<open>BaseNode\<close> of \<^verbatim>\<open>engine/base.py\<close>, which
  \<^verbatim>\<open>pipeline.py\<close> imports, is not among the sources. The pipeline reads the
  predecessors of a node, writes its successors and its logger, and calls its
  \<^verbatim>\<open>start\<close>, \<^verbatim>\<open>exit\<close> and \<^verbatim>\<open>join\<close>; a node has a unique name.
\<close>

record PipelineNode =
  node_name :: string
  predecessors :: "string list"
  node_successors :: "string list"
  node_logger :: "string option"

text \<open>
  The argument of \<^verbatim>\<open>Pipeline.__init__\<close> is an \<^verbatim>\<open>Iterable[BaseNode]\<close>, and a \<^verbatim>\<open>for\<close>
  loop over it asks it for an iterator. A collection (a list, a tuple) hands out its
  elements afresh every time; an iterator (a generator, a \<^verbatim>\<open>map\<close> or \<^verbatim>\<open>filter\<close>
  object) hands out what is left in it and is empty from then on. \<open>iterate\<close> is one
  \<^verbatim>\<open>for\<close> loop: what it yields, and the iterable as the loop leaves it.
\<close>

datatype 'a iterable = Collection "'a list" | Iterator "'a list"

fun iterate :: "'a iterable \<Rightarrow> 'a list \<times> 'a iterable" where
  "iterate (Collection xs) = (xs, Collection xs)"
| "iterate (Iterator xs) = (xs, Iterator [])"

text \<open>A constructed pipeline: the graph, and the names of the nodes in the order of
  the topological sort.\<close>

record Pipeline =
  graph :: DiGraph
  nodes :: "string list"

text \<open>
  The loops of \<^verbatim>\<open>Pipeline.__init__\<close>: every node that the first loop is given is
  added to the graph; for every node that the second loop is given and every
  predecessor of it, the edge from the predecessor to the node is added; every node
  that the third loop is given has its successors written; and if a logger was
  passed, every node that the fourth loop is given has it set.
\<close>

definition add_nodes :: "PipelineNode list \<Rightarrow> DiGraph \<Rightarrow> DiGraph" where
  "add_nodes ns g = fold (\<lambda>n. add_node (node_name n)) ns g"

definition add_edges_of :: "PipelineNode \<Rightarrow> DiGraph \<Rightarrow> DiGraph" where
  "add_edges_of n g = fold (\<lambda>p. add_edge p (node_name n)) (predecessors n) g"

definition add_edges :: "PipelineNode list \<Rightarrow> DiGraph \<Rightarrow> DiGraph" where
  "add_edges ns g = fold add_edges_of ns g"

definition set_successors ::
  "DiGraph \<Rightarrow> PipelineNode list \<Rightarrow> PipelineNode list \<Rightarrow> PipelineNode list" where
  "set_successors g given objs =
     map (\<lambda>n. if node_name n \<in> set (map node_name given)
               then n\<lparr>node_successors := graph_successors g (node_name n)\<rparr> else n) objs"

definition set_logger :: "string \<Rightarrow> PipelineNode \<Rightarrow> PipelineNode" where
  "set_logger l n = n\<lparr>node_logger := Some l\<rparr>"

definition set_loggers ::
  "string \<Rightarrow> PipelineNode list \<Rightarrow> PipelineNode list \<Rightarrow> PipelineNode list" where
  "set_loggers l given objs =
     map (\<lambda>n. if node_name n \<in> set (map node_name given) then set_logger l n else n) objs"

text \<open>
  \<^verbatim>\<open>Pipeline.__init__\<close>. Each loop iterates the argument as the loop before has left
  it. The node objects are the ones the first loop was given; they have been written
  to when the graph is tested, so they are returned in both cases; the test raises
  \<^verbatim>\<open>InvalidNodeDependencyError\<close>, and otherwise the sorted names are stored.
\<close>

definition Pipeline_init ::
  "PipelineNode iterable \<Rightarrow> string option \<Rightarrow> (error + Pipeline) \<times> PipelineNode list" where
  "Pipeline_init given logger =
     (let (ns1, it1) = iterate given;
          g1 = add_nodes ns1 empty_graph;
          (ns2, it2) = iterate it1;
          g = add_edges ns2 g1;
          (ns3, it3) = iterate it2;
          objs3 = set_successors g ns3 ns1;
          objs = (case logger of
                    None \<Rightarrow> objs3
                  | Some l \<Rightarrow> set_loggers l (fst (iterate it3)) objs3)
      in if \<not> is_directed_acyclic_graph g then (Inl InvalidNodeDependencyError, objs)
         else (Inr \<lparr>graph = g, nodes = the (topological_sort g)\<rparr>, objs))"

text \<open>
  Modelled from the spec: a node is a \<^verbatim>\<open>Thread\<close> of the Python library, which is not
  part of the repository. A thread has not been started, or is alive, or has ended.
  \<^verbatim>\<open>start\<close> starts a thread that has not been started and raises \<^verbatim>\<open>RuntimeError\<close> on
  any other. \<^verbatim>\<open>join\<close> raises \<^verbatim>\<open>RuntimeError\<close> on a thread that has not been started,
  returns at once on one that has ended, and on a thread that is alive it returns
  when the \<^verbatim>\<open>run\<close> method returns: never, if that does not return.
\<close>

datatype thread_state = NotStarted | Alive | Finished

text \<open>
  What \<^verbatim>\<open>launch_nodes\<close> and \<^verbatim>\<open>terminate_nodes\<close> do is recorded in a transcript, next to
  the part of the node objects they act on: the status of every node as the pipeline
  has written it, and the state of its thread. A method of the pipeline returns, or
  raises, or never returns.
\<close>

datatype pipeline_event = Printed string | Started string | ExitCalled string | Joined string

record running =
  status_of :: "string \<Rightarrow> Status"
  thread_of :: "string \<Rightarrow> thread_state"
  transcript :: "pipeline_event list"

datatype ending = Completed | Failed error | Hangs

definition thread_start :: "string \<Rightarrow> running \<Rightarrow> ending \<times> running" where
  "thread_start v st =
     (case thread_of st v of
        NotStarted \<Rightarrow>
          (Completed, st\<lparr>thread_of := (thread_of st)(v := Alive),
                         transcript := transcript st @ [Started v]\<rparr>)
      | Alive \<Rightarrow> (Failed RuntimeError, st)
      | Finished \<Rightarrow> (Failed RuntimeError, st))"

text \<open>
  \<open>ends_after_exit v\<close> says that the \<^verbatim>\<open>run\<close> method of the node \<open>v\<close> returns once
  \<^verbatim>\<open>exit\<close> has been called on it. The loop of \<^verbatim>\<open>BaseNode.run\<close> in \<^verbatim>\<open>engine/node.py\<close>
  leaves when it finds the status STOPPING; the loop of \<^verbatim>\<open>AndAndNode.run\<close> in
  \<^verbatim>\<open>engine/logic.py\<close> is \<^verbatim>\<open>while True\<close> with no way out.
\<close>

definition thread_join :: "(string \<Rightarrow> bool) \<Rightarrow> string \<Rightarrow> running \<Rightarrow> ending \<times> running" where
  "thread_join ends_after_exit v st =
     (case thread_of st v of
        NotStarted \<Rightarrow> (Failed RuntimeError, st)
      | Finished \<Rightarrow> (Completed, st\<lparr>transcript := transcript st @ [Joined v]\<rparr>)
      | Alive \<Rightarrow>
          if ends_after_exit v
          then (Completed, st\<lparr>thread_of := (thread_of st)(v := Finished),
                              transcript := transcript st @ [Joined v]\<rparr>)
          else (Hangs, st))"

text \<open>
  Modelled from the spec: \<^verbatim>\<open>BaseNode.exit\<close> of \<^verbatim>\<open>engine/base.py\<close> is not among the
  sources. Terminating signals STOPPING to a node, as \<^verbatim>\<open>BaseNode.stop\<close> of
  \<^verbatim>\<open>engine/node.py\<close> does: the status of the node of that name becomes STOPPING.
\<close>

definition node_exit :: "string \<Rightarrow> running \<Rightarrow> running" where
  "node_exit v st =
     st\<lparr>status_of := (status_of st)(v := STOPPING),
        transcript := transcript st @ [ExitCalled v]\<rparr>"

text \<open>The body of the loop of \<^verbatim>\<open>terminate_nodes\<close>: \<^verbatim>\<open>node.exit()\<close>, then
  \<^verbatim>\<open>node.join()\<close>.\<close>

definition exit_and_join :: "(string \<Rightarrow> bool) \<Rightarrow> string \<Rightarrow> running \<Rightarrow> ending \<times> running" where
  "exit_and_join ends_after_exit v st = thread_join ends_after_exit v (node_exit v st)"

text \<open>A \<^verbatim>\<open>for\<close> loop over a list: it stops where its body raises or does not return.\<close>

fun for_each ::
  "('a \<Rightarrow> running \<Rightarrow> ending \<times> running) \<Rightarrow> 'a list \<Rightarrow> running \<Rightarrow> ending \<times> running" where
  "for_each body [] st = (Completed, st)"
| "for_each body (v # vs) st =
     (case body v st of
        (Completed, st') \<Rightarrow> for_each body vs st'
      | (Failed e, st') \<Rightarrow> (Failed e, st')
      | (Hangs, st') \<Rightarrow> (Hangs, st'))"

definition printed :: "string \<Rightarrow> running \<Rightarrow> running" where
  "printed s st = st\<lparr>transcript := transcript st @ [Printed s]\<rparr>"

definition terminate_nodes ::
  "(string \<Rightarrow> bool) \<Rightarrow> Pipeline \<Rightarrow> running \<Rightarrow> ending \<times> running" where
  "terminate_nodes ends_after_exit p st =
     (case for_each (exit_and_join ends_after_exit) (rev (nodes p))
             (printed ''Terminating nodes'' st) of
        (Completed, st') \<Rightarrow> (Completed, printed ''All nodes terminated'' st')
      | (Failed e, st') \<Rightarrow> (Failed e, st')
      | (Hangs, st') \<Rightarrow> (Hangs, st'))"

definition launch_nodes :: "Pipeline \<Rightarrow> running \<Rightarrow> ending \<times> running" where
  "launch_nodes p st = for_each thread_start (nodes p) st"

section \<open>The barrier (engine/logic.py, class AndAndNode)\<close>

text \<open>
  Modelled from the spec: \<^verbatim>\<open>Result\<close> of \<^verbatim>\<open>engine/constants.py\<close> and the class
  \<^verbatim>\<open>BaseNode\<close> of \<^verbatim>\<open>engine/base.py\<close>, which \<^verbatim>\<open>AndAndNode\<close> extends, are not among
  the sources. A barrier has a name, predecessors and successors; what it has been
  signalled by either side, at the moment it looks, is a view.
\<close>

datatype Result = Result_SUCCESS | Result_FAILURE

record AndAndNode =
  barrier_name :: string
  barrier_predecessors :: "string list"
  barrier_successors :: "string list"

record signals_view =
  from_predecessors :: "string \<rightharpoonup> Result"
  from_successors :: "string \<rightharpoonup> Result"

definition all_success :: "(string \<rightharpoonup> Result) \<Rightarrow> string list \<Rightarrow> bool" where
  "all_success signals names = list_all (\<lambda>n. signals n = Some Result_SUCCESS) names"

text \<open>
  Modelled from the spec: \<^verbatim>\<open>check_predecessors_signals\<close> and
  \<^verbatim>\<open>check_successors_signals\<close> are methods of the missing \<^verbatim>\<open>BaseNode\<close>. The first holds
  when every predecessor has signalled SUCCESS, the second when every successor has
  signalled SUCCESS back.
\<close>

definition check_predecessors_signals :: "AndAndNode \<Rightarrow> signals_view \<Rightarrow> bool" where
  "check_predecessors_signals b v = all_success (from_predecessors v) (barrier_predecessors b)"

definition check_successors_signals :: "AndAndNode \<Rightarrow> signals_view \<Rightarrow> bool" where
  "check_successors_signals b v = all_success (from_successors v) (barrier_successors b)"

text \<open>What the barrier does, one event per call it makes.\<close>

datatype barrier_event =
    CheckedPredecessors signals_view
  | CheckedSuccessors signals_view
  | Slept
  | Logged string
  | SignalledSuccessors Result "string list"
  | SignalledPredecessors Result "string list"

text \<open>
  Modelled from the spec: \<^verbatim>\<open>signal_successors\<close> and \<^verbatim>\<open>signal_predecessors\<close> are
  methods of the missing \<^verbatim>\<open>BaseNode\<close> as well. They emit the given result to every
  successor, and to every predecessor.
\<close>

definition signal_successors :: "AndAndNode \<Rightarrow> Result \<Rightarrow> barrier_event" where
  "signal_successors b r = SignalledSuccessors r (barrier_successors b)"

definition signal_predecessors :: "AndAndNode \<Rightarrow> Result \<Rightarrow> barrier_event" where
  "signal_predecessors b r = SignalledPredecessors r (barrier_predecessors b)"

text \<open>
  \<^verbatim>\<open>AndAndNode.run\<close>. The outer loop never ends; each of the two inner loops checks,
  sleeps and checks again until its check does not return \<^verbatim>\<open>False\<close>. The other nodes
  decide what a check sees: the list holds the view of each check in turn, and the
  run goes as far as the list reaches. The phase says which inner loop is running.
\<close>

datatype barrier_phase = AwaitPredecessors | AwaitSuccessors

fun AndAndNode_run :: "AndAndNode \<Rightarrow> barrier_phase \<Rightarrow> signals_view list \<Rightarrow> barrier_event list" where
  "AndAndNode_run b ph [] = []"
| "AndAndNode_run b AwaitPredecessors (v # views) =
     (if check_predecessors_signals b v = False then
        CheckedPredecessors v # Slept # AndAndNode_run b AwaitPredecessors views
      else
        CheckedPredecessors v
          # Logged ''all resource nodes have finished updating its state.''
          # signal_successors b Result_SUCCESS
          # AndAndNode_run b AwaitSuccessors views)"
| "AndAndNode_run b AwaitSuccessors (v # views) =
     (if check_successors_signals b v = False then
        CheckedSuccessors v # Slept # AndAndNode_run b AwaitSuccessors views
      else
        CheckedSuccessors v
          # Logged ''all action nodes have finished using the current state.''
          # signal_predecessors b Result_SUCCESS
          # AndAndNode_run b AwaitPredecessors views)"

section \<open>Notions the properties are stated with\<close>

text \<open>
  The parity the specification asks of XOR: true iff an odd number of the values are
  true. It is stated here to be compared with what \<open>evaluate\<close> computes.
\<close>

definition parity_of :: "bool list \<Rightarrow> bool" where
  "parity_of bs = odd (length (filter (\<lambda>b. b) bs))"

text \<open>
  The arities the specification calls well formed: NOT has exactly one parameter, AND,
  OR and XOR have at least one, at every level of the expression.
\<close>

fun well_formed :: "SignalAST \<Rightarrow> bool"
  and well_formed_params :: "param list \<Rightarrow> bool"
  and well_formed_param :: "param \<Rightarrow> bool"
where
  "well_formed (SignalAST opn ps) =
     ((if opn = NOT then length ps = 1 else 1 \<le> length ps) \<and> well_formed_params ps)"
| "well_formed_params [] = True"
| "well_formed_params (p # ps) = (well_formed_param p \<and> well_formed_params ps)"
| "well_formed_param (PAST a) = well_formed a"
| "well_formed_param (PNode nm) = True"

text \<open>A message as \<^verbatim>\<open>send_signals\<close> builds it, from the given sender at time 0.\<close>

definition message_from :: "string \<Rightarrow> Status \<Rightarrow> Message" where
  "message_from nm st =
     \<lparr>sender = nm, msg_signal_type = ''DEFAULT_SIGNAL'', timestamp = 0, msg_status = Some st\<rparr>"

text \<open>
  The predecessor relation of the nodes handed to the pipeline: \<open>p\<close> is related to the
  name of \<open>n\<close> when \<open>n\<close> is one of the nodes and \<open>p\<close> one of its predecessors. It has a
  cycle when some name is related to itself by its transitive closure.
\<close>

definition predecessor_relation :: "PipelineNode list \<Rightarrow> (string \<times> string) set" where
  "predecessor_relation ns = {(p, node_name n) | p n. n \<in> set ns \<and> p \<in> set (predecessors n)}"

text \<open>The graph that \<^verbatim>\<open>Pipeline.__init__\<close> builds when every loop is given the same
  nodes.\<close>

definition build_graph :: "PipelineNode list \<Rightarrow> DiGraph" where
  "build_graph ns = add_edges ns (add_nodes ns empty_graph)"

text \<open>
  The threads of the nodes can be terminated: each has ended already, or is alive and
  its \<^verbatim>\<open>run\<close> method returns once \<^verbatim>\<open>exit\<close> has been called.
\<close>

definition can_be_joined :: "(string \<Rightarrow> bool) \<Rightarrow> running \<Rightarrow> string list \<Rightarrow> bool" where
  "can_be_joined ends_after_exit st vs =
     list_all (\<lambda>v. thread_of st v = Finished \<or> (thread_of st v = Alive \<and> ends_after_exit v)) vs"

text \<open>Every end point of an edge is a node of the graph.\<close>

definition closed_graph :: "DiGraph \<Rightarrow> bool" where
  "closed_graph g =
     list_all (\<lambda>e. fst e \<in> set (g_nodes g) \<and> snd e \<in> set (g_nodes g)) (g_edges g)"

text \<open>\<open>y\<close> occurs in the list somewhere after the first \<open>x\<close>.\<close>

definition comes_before :: "'a \<Rightarrow> 'a \<Rightarrow> 'a list \<Rightarrow> bool" where
  "comes_before x y xs = (y \<in> set (tl (dropWhile (\<lambda>z. z \<noteq> x) xs)))"

text \<open>
  The two-phase rendezvous in the words of the specification, as an acceptor of what
  a barrier does. Fan-in: the barrier checks its predecessors and sleeps, and moves on
  with the check that finds SUCCESS from every predecessor. Fan-out: it emits SUCCESS
  to every successor. Back-ack: it checks its successors and sleeps, and moves on with
  the check that finds SUCCESS from every successor. Release: it emits SUCCESS to
  every predecessor, and fan-in starts again. Logging is allowed where the barrier is
  about to emit; anything else is refused.
\<close>

datatype protocol_phase = FanIn | FanOut | BackAck | Release

fun four_phase :: "AndAndNode \<Rightarrow> protocol_phase \<Rightarrow> barrier_event list \<Rightarrow> bool" where
  "four_phase b ph [] = True"
| "four_phase b FanIn (CheckedPredecessors v # es) =
     (if all_success (from_predecessors v) (barrier_predecessors b)
      then four_phase b FanOut es else four_phase b FanIn es)"
| "four_phase b FanIn (Slept # es) = four_phase b FanIn es"
| "four_phase b FanOut (Logged s # es) = four_phase b FanOut es"
| "four_phase b FanOut (SignalledSuccessors r ss # es) =
     (r = Result_SUCCESS \<and> ss = barrier_successors b \<and> four_phase b BackAck es)"
| "four_phase b BackAck (CheckedSuccessors v # es) =
     (if all_success (from_successors v) (barrier_successors b)
      then four_phase b Release es else four_phase b BackAck es)"
| "four_phase b BackAck (Slept # es) = four_phase b BackAck es"
| "four_phase b Release (Logged s # es) = four_phase b Release es"
| "four_phase b Release (SignalledPredecessors r ps # es) =
     (r = Result_SUCCESS \<and> ps = barrier_predecessors b \<and> four_phase b FanIn es)"
| "four_phase b ph (e # es) = False"

text \<open>The events of an inner loop whose check fails on each of the given views.\<close>

definition waiting_for_predecessors :: "signals_view list \<Rightarrow> barrier_event list" where
  "waiting_for_predecessors views = concat (map (\<lambda>v. [CheckedPredecessors v, Slept]) views)"

definition waiting_for_successors :: "signals_view list \<Rightarrow> barrier_event list" where
  "waiting_for_successors views = concat (map (\<lambda>v. [CheckedSuccessors v, Slept]) views)"

text \<open>
  The map a drain leaves behind, said without the loop: under each sender the last
  message of that sender in the queue, and what was there before for a sender with
  no message in the queue.
\<close>

definition latest_from :: "Message list \<Rightarrow> string \<Rightarrow> Message option" where
  "latest_from queue s =
     (let ms = filter (\<lambda>m. sender m = s) queue in if ms = [] then None else Some (last ms))"

definition drained_map :: "Message list \<Rightarrow> (string \<rightharpoonup> Message) \<Rightarrow> (string \<rightharpoonup> Message)" where
  "drained_map queue received s =
     (case latest_from queue s of None \<Rightarrow> received s | Some m \<Rightarrow> Some m)"

text \<open>
  A pass of the loop reaches the \<^verbatim>\<open>try\<close> statement: the status is RUNNING,
  \<^verbatim>\<open>pre_trigger\<close> returns true, the node is triggered, \<open>check_signals\<close> returns true
  and leaves the node \<open>n1\<close>, and \<^verbatim>\<open>pre_execution\<close> returns and leaves the state \<open>u1\<close>
  of the hooks. \<open>at_execute\<close> is the worker at that point.
\<close>

definition reaches_execute :: "'u hooks \<Rightarrow> 'u worker \<Rightarrow> BaseNode \<Rightarrow> 'u \<Rightarrow> bool" where
  "reaches_execute h w n1 u1 =
     (status (node w) = RUNNING \<and> triggered (node w)
      \<and> check_signals (node w) = (Inr True, n1)
      \<and> (\<exists>u0. hook_pre_trigger h (user w) = (Inr True, u0)
             \<and> hook_pre_execution h u0 = (Inr (), u1)))"

definition at_execute :: "'u worker \<Rightarrow> BaseNode \<Rightarrow> 'u \<Rightarrow> 'u worker" where
  "at_execute w n1 u1 =
     w\<lparr>node := n1\<lparr>waiting := False\<rparr>, user := u1,
       calls := calls w @ [PreTrigger, CheckSignals, PreExecution]\<rparr>"

text \<open>
  After \<^verbatim>\<open>execute\<close> has returned true with the state \<open>u2\<close>, the rest of the \<^verbatim>\<open>try\<close>
  body raises \<open>e\<close> in one of three places: in \<^verbatim>\<open>on_success\<close>; in \<^verbatim>\<open>post_execution\<close>
  after \<^verbatim>\<open>on_success\<close> has returned; or in the emission of SUCCESS after both have
  returned, when the message cannot be built from the signal type \<open>sig\<close>. \<open>ur\<close> is the
  state of the hooks at the raise and \<open>entered\<close> lists what was entered after
  \<^verbatim>\<open>execute\<close>.
\<close>

definition raised_in_try ::
  "'u hooks \<Rightarrow> pyvalue \<Rightarrow> 'u \<Rightarrow> error \<Rightarrow> 'u \<Rightarrow> event list \<Rightarrow> bool" where
  "raised_in_try h sig u2 e ur entered =
     ((hook_on_success h u2 = (Inl e, ur) \<and> entered = [OnSuccess])
      \<or> (\<exists>u3. hook_on_success h u2 = (Inr (), u3)
              \<and> hook_post_execution h u3 = (Inl e, ur)
              \<and> entered = [OnSuccess, PostExecution])
      \<or> (\<exists>u3. hook_on_success h u2 = (Inr (), u3)
              \<and> hook_post_execution h u3 = (Inr (), ur)
              \<and> validate_str sig = Inl e
              \<and> entered = [OnSuccess, PostExecution, SendSignals SUCCESS]))"

subsection \<open>Nodes and hooks of the examples\<close>

text \<open>
  \<open>listener\<close> is \<^verbatim>\<open>BaseNode("B", listen_to=[A])\<close>; \<open>producer\<close> is the node \<open>A\<close> it
  listens to, after the constructor of \<open>B\<close> has appended \<open>B\<close> to its successors. A
  fresh worker has empty queues everywhere and an empty record of calls.
\<close>

definition listener :: "BaseNode" where
  "listener = BaseNode_init ''B'' (PyStr ''DEFAULT_SIGNAL'') [PNode ''A''] True"

definition producer :: BaseNode where
  "producer = (BaseNode_init ''A'' (PyStr ''DEFAULT_SIGNAL'') [] True)\<lparr>successors := [''B'']\<rparr>"

definition fresh_worker :: "BaseNode \<Rightarrow> 'u \<Rightarrow> 'u worker" where
  "fresh_worker n u = \<lparr>node = n, user = u, mail = (\<lambda>_. []), clock = 0, calls = []\<rparr>"

text \<open>
  \<open>watcher\<close> is \<^verbatim>\<open>DirWatchNode("folder1", "/data")\<close> as a worker sees it, with \<open>B\<close>
  as its successor: no logger was given, so its signal type is \<^verbatim>\<open>None\<close>.
\<close>

definition watcher :: BaseNode where
  "watcher =
     (BaseNode.truncate (DirWatchNode_init ''folder1'' ''/data'' PyNone))\<lparr>successors := [''B'']\<rparr>"

text \<open>Subclasses that override one or two hooks with a method that raises.\<close>

definition setup_fails :: "unit hooks" where
  "setup_fails = default_hooks\<lparr>hook_setup := raises (HookError ''setup'')\<rparr>"

definition execute_fails :: "unit hooks" where
  "execute_fails = default_hooks\<lparr>hook_execute := raises (HookError ''execute'')\<rparr>"

definition post_and_execute_fail :: "unit hooks" where
  "post_and_execute_fail =
     default_hooks\<lparr>hook_execute := raises (HookError ''execute''),
                   hook_post_execution := raises (HookError ''post_execution'')\<rparr>"

definition handler_fails :: "unit hooks" where
  "handler_fails =
     default_hooks\<lparr>hook_execute := raises (HookError ''execute''),
                   hook_on_failure := (\<lambda>e. raises (HookError ''on_failure''))\<rparr>"

definition success_fails :: "unit hooks" where
  "success_fails = default_hooks\<lparr>hook_on_success := raises (HookError ''on_success'')\<rparr>"

definition post_fails :: "unit hooks" where
  "post_fails = default_hooks\<lparr>hook_post_execution := raises (HookError ''post_execution'')\<rparr>"

text \<open>A \<^verbatim>\<open>post_execution\<close> that raises on its first call only; the state counts the calls.\<close>

definition post_fails_once :: "nat hooks" where
  "post_fails_once =
     default_hooks\<lparr>hook_post_execution :=
       (\<lambda>u. if u = 0 then (Inl (HookError ''post_execution''), Suc u) else (Inr (), u))\<rparr>"

text \<open>
  Methods of a resource node: one that only reads, one that returns whether the
  event is set while it runs, one that raises. \<open>visited\<close> is a resource node after one
  reader has come and gone.
\<close>

definition reads :: "unit resource_method" where
  "reads s = (Inr (), s)"

definition observes_event :: "bool resource_method" where
  "observes_event s = (Inr (event_is_set s), s)"

definition update_fails :: "unit resource_method" where
  "update_fails s = (Inl (HookError ''update''), s)"

definition visited :: ResourceNode where
  "visited = snd (exeternally_accessible reads (ResourceNode_init ''R'' (PyStr ''DEFAULT_SIGNAL'')))"

text \<open>
  Pipeline nodes as they are before the pipeline is built, a ring of three and a
  chain of three (handed over last node first); the pipeline that the chain gives
  when it is handed over as a list, and the one it gives when it is handed over as a
  generator; the state in which no thread has been started, and the state after
  \<^verbatim>\<open>launch_nodes\<close>.
\<close>

definition pipeline_node :: "string \<Rightarrow> string list \<Rightarrow> PipelineNode" where
  "pipeline_node nm ps =
     \<lparr>node_name = nm, predecessors = ps, node_successors = [], node_logger = None\<rparr>"


definition chain3 :: "PipelineNode list" where
  "chain3 = [pipeline_node ''C'' [''B''], pipeline_node ''B'' [''A''], pipeline_node ''A'' []]"

definition chain_from_list :: Pipeline where
  "chain_from_list =
     \<lparr>graph = \<lparr>g_nodes = [''C'', ''B'', ''A''], g_edges = [(''B'', ''C''), (''A'', ''B'')]\<rparr>,
      nodes = [''A'', ''B'', ''C'']\<rparr>"

definition chain_from_generator :: Pipeline where
  "chain_from_generator =
     \<lparr>graph = \<lparr>g_nodes = [''C'', ''B'', ''A''], g_edges = []\<rparr>, nodes = [''C'', ''B'', ''A'']\<rparr>"

definition not_started :: running where
  "not_started = \<lparr>status_of = (\<lambda>_. OFF), thread_of = (\<lambda>_. NotStarted), transcript = []\<rparr>"

definition launched :: running where
  "launched = snd (launch_nodes chain_from_list not_started)"

text \<open>Every \<^verbatim>\<open>run\<close> returns after \<^verbatim>\<open>exit\<close>; and every one but that of \<open>C\<close>, which is a
  barrier.\<close>

definition all_end :: "string \<Rightarrow> bool" where
  "all_end v = True"

definition barrier_at_C :: "string \<Rightarrow> bool" where
  "barrier_at_C v = (v \<noteq> ''C'')"

text \<open>
  A barrier between three producers and two consumers, and four views of it: nothing
  has arrived; every producer has signalled SUCCESS; one consumer has signalled
  SUCCESS back; both consumers have.
\<close>

definition fan_barrier :: AndAndNode where
  "fan_barrier =
     \<lparr>barrier_name = ''Barrier'',
      barrier_predecessors = [''P1'', ''P2'', ''P3''],
      barrier_successors = [''C1'', ''C2'']\<rparr>"

definition nothing_yet :: signals_view where
  "nothing_yet = \<lparr>from_predecessors = Map.empty, from_successors = Map.empty\<rparr>"

definition producers_done :: signals_view where
  "producers_done =
     \<lparr>from_predecessors =
        [''P1'' \<mapsto> Result_SUCCESS, ''P2'' \<mapsto> Result_SUCCESS, ''P3'' \<mapsto> Result_SUCCESS],
      from_successors = Map.empty\<rparr>"

definition one_consumer_done :: signals_view where
  "one_consumer_done =
     \<lparr>from_predecessors = Map.empty, from_successors = [''C1'' \<mapsto> Result_SUCCESS]\<rparr>"

definition consumers_done :: signals_view where
  "consumers_done =
     \<lparr>from_predecessors = Map.empty,
      from_successors = [''C1'' \<mapsto> Result_SUCCESS, ''C2'' \<mapsto> Result_SUCCESS]\<rparr>"

text \<open>The gate \<^verbatim>\<open>And(A1, Or(A2, Not(A3)))\<close>.\<close>

definition gate_of_three :: SignalAST where
  "gate_of_three =
     And_ast [PNode ''A1'', PAST (Or_ast [PNode ''A2'', PAST (Not_ast (PNode ''A3''))])]"

section \<open>Properties of the signal expressions\<close>

lemma foldl_xor_step: "foldl xor_step x xs = (if xs = [] then x else False)"
  by (induction xs arbitrary: x) (auto simp: xor_step_def)

lemma evaluate_params_length:
  "evaluate_params ps received = Inr vs \<Longrightarrow> length vs = length ps"
  by (induction ps arbitrary: vs) (auto split: sum.splits)

text \<open>
  What the XOR branch computes: the value of an only child, and \<open>False\<close> as soon as
  there are two children or more, whatever their values.
\<close>

lemma evaluate_xor_single:
  "evaluate_params [p] received = Inr [v] \<Longrightarrow> evaluate (SignalAST XOR [p]) received = Inr v"
  by (simp add: apply_operation_def reduce_xor_def)

lemma evaluate_xor_many:
  assumes "evaluate_params ps received = Inr vs" and "2 \<le> length ps"
  shows "evaluate (SignalAST XOR ps) received = Inr False"
proof -
  have "length vs = length ps" using assms(1) by (rule evaluate_params_length)
  with assms(2) obtain v w rest where "vs = v # w # rest"
    by (cases vs; cases "tl vs") auto
  then show ?thesis
    using assms(1) by (simp add: apply_operation_def reduce_xor_def foldl_xor_step)
qed

text \<open>
  C1. The claim: an expression with root XOR evaluates to the parity of its children.
  The code at \<^verbatim>\<open>XOr(A, B)\<close>, for a node that has received SUCCESS from \<open>A\<close> and
  nothing from \<open>B\<close>: the children evaluate to true and false, their parity is true,
  and \<open>evaluate\<close> returns false.
\<close>

theorem xor_two_children_returns_false:
  "evaluate_params [PNode ''A'', PNode ''B''] [''A'' \<mapsto> message_from ''A'' SUCCESS]
     = Inr [True, False]
   \<and> parity_of [True, False] = True
   \<and> evaluate (XOr_ast [PNode ''A'', PNode ''B'']) [''A'' \<mapsto> message_from ''A'' SUCCESS]
     = Inr False"
  by (simp add: XOr_ast_def apply_operation_def reduce_xor_def xor_step_def leaf_value_def
      message_from_def parity_of_def)

lemma evaluate_total_on_well_formed:
  "well_formed a \<longrightarrow> (\<exists>b. evaluate a received = Inr b)"
  "well_formed_params ps \<longrightarrow> (\<exists>vs. evaluate_params ps received = Inr vs)"
  "well_formed_param p \<longrightarrow> (\<exists>b. evaluate_param p received = Inr b)"
proof (induction a received and ps received and p received
    rule: evaluate_evaluate_params_evaluate_param.induct)
  case (1 opn ps received)
  show ?case
  proof
    assume wf: "well_formed (SignalAST opn ps)"
    then obtain vs where vs: "evaluate_params ps received = Inr vs"
      using 1 by auto
    have len: "length vs = length ps"
      using vs by (rule evaluate_params_length)
    show "\<exists>b. evaluate (SignalAST opn ps) received = Inr b"
      using wf vs len
      by (cases opn; cases vs) (auto simp: apply_operation_def reduce_xor_def)
  qed
qed (auto split: sum.splits)

text \<open>
  C3, as the code has it. Evaluation of a well-formed expression returns a boolean and
  never raises. No constructor checks an arity: every tree can be built, and a wrong
  arity shows at evaluation only. There a NOT whose parameters evaluate and are not
  exactly one fails its assertion, an XOR without parameters raises the
  \<^verbatim>\<open>TypeError\<close> of \<^verbatim>\<open>reduce\<close>, and AND and OR without parameters evaluate to true and
  false.
\<close>

theorem evaluate_never_raises_on_well_formed:
  "(well_formed a \<longrightarrow> (\<exists>b. evaluate a received = Inr b))
   \<and> (evaluate_params ps received = Inr vs \<longrightarrow> length ps \<noteq> 1 \<longrightarrow>
        evaluate (SignalAST NOT ps) received = Inl AssertionError)
   \<and> evaluate (XOr_ast []) received = Inl TypeError
   \<and> evaluate (And_ast []) received = Inr True
   \<and> evaluate (Or_ast []) received = Inr False"
proof -
  have "evaluate (SignalAST NOT ps) received = Inl AssertionError"
    if "evaluate_params ps received = Inr vs" and "length ps \<noteq> 1"
  proof -
    have "length vs \<noteq> 1"
      using that evaluate_params_length by fastforce
    then show ?thesis
      using that(1) by (simp add: apply_operation_def)
  qed
  then show ?thesis
    using evaluate_total_on_well_formed(1) [of a received]
    by (simp add: XOr_ast_def And_ast_def Or_ast_def apply_operation_def reduce_xor_def)
qed

theorem evaluate_never_raises_on_well_formed_witness:
  "well_formed (And_ast [PNode ''A'', PAST (Not_ast (PNode ''B''))])
   \<and> (\<exists>b. evaluate (And_ast [PNode ''A'', PAST (Not_ast (PNode ''B''))]) Map.empty = Inr b)
   \<and> evaluate_params [PNode ''A'', PNode ''B''] Map.empty = Inr [False, False]
   \<and> length [PNode ''A'', PNode ''B''] \<noteq> 1
   \<and> evaluate (SignalAST NOT [PNode ''A'', PNode ''B'']) Map.empty = Inl AssertionError"
proof -
  have wf: "well_formed (And_ast [PNode ''A'', PAST (Not_ast (PNode ''B''))])"
    by (simp add: And_ast_def Not_ast_def)
  have ps: "evaluate_params [PNode ''A'', PNode ''B''] Map.empty = Inr [False, False]"
    by (simp add: leaf_value_def)
  show ?thesis
    using wf ps
      evaluate_never_raises_on_well_formed
        [of "And_ast [PNode ''A'', PAST (Not_ast (PNode ''B''))]" Map.empty
            "[PNode ''A'', PNode ''B'']" "[False, False]"]
    by simp
qed

text \<open>
  The claim C3 as written fails: \<^verbatim>\<open>SignalAST(ASTOperation.NOT, [])\<close> and \<^verbatim>\<open>XOr()\<close> are
  built without complaint, with the operation and the empty parameter list they
  were given, and it is their evaluation that raises.
\<close>

theorem wrong_arity_raises_at_evaluation:
  "operation (SignalAST NOT []) = NOT
   \<and> parameters (SignalAST NOT []) = []
   \<and> \<not> well_formed (SignalAST NOT [])
   \<and> evaluate (SignalAST NOT []) Map.empty = Inl AssertionError
   \<and> \<not> well_formed (XOr_ast [])
   \<and> evaluate (XOr_ast []) Map.empty = Inl TypeError"
  by (simp add: XOr_ast_def apply_operation_def reduce_xor_def)

section \<open>Properties of the signal gate\<close>

lemma drain_latest: "drain queue received = drained_map queue received"
proof (induction queue arbitrary: received)
  case Nil
  show ?case by (rule ext) (simp add: drained_map_def latest_from_def)
next
  case (Cons m queue)
  show ?case
    by (rule ext) (simp add: Cons drained_map_def latest_from_def Let_def)
qed


lemma listener_fields:
  "dependent_nodes listener = {''A''}"
  "signal_ast listener = SignalAST AND [PNode ''A'']"
  "incoming_signals listener = []"
  "received_signals listener = Map.empty"
  by (simp_all add: listener_def BaseNode_init_def item_nodes_def And_ast_def)

text \<open>
  C2, as the code has it. Without dependent nodes \<open>check_signals\<close> returns true and
  leaves the node alone. With dependent nodes and an empty queue it returns false
  at once, and the expression is not evaluated. With dependent nodes and a
  non-empty queue it empties the queue into the received-signal map, the last
  message of each sender winning, and returns what the expression evaluates to
  against that map.
\<close>

theorem check_signals_cases:
  "(dependent_nodes n = {} \<longrightarrow> check_signals n = (Inr True, n))
   \<and> (dependent_nodes n \<noteq> {} \<longrightarrow> incoming_signals n = [] \<longrightarrow>
        check_signals n = (Inr False, n))
   \<and> (dependent_nodes n \<noteq> {} \<longrightarrow> incoming_signals n \<noteq> [] \<longrightarrow>
        check_signals n =
          (evaluate (signal_ast n) (drained_map (incoming_signals n) (received_signals n)),
           n\<lparr>received_signals := drained_map (incoming_signals n) (received_signals n),
             incoming_signals := []\<rparr>))"
proof (intro conjI impI)
  assume "dependent_nodes n = {}"
  then show "check_signals n = (Inr True, n)"
    by (simp add: check_signals_def)
next
  assume "dependent_nodes n \<noteq> {}" and "incoming_signals n = []"
  then show "check_signals n = (Inr False, n)"
    by (simp add: check_signals_def)
next
  let ?received = "drained_map (incoming_signals n) (received_signals n)"
  assume deps: "dependent_nodes n \<noteq> {}" and queue: "incoming_signals n \<noteq> []"
  have "drain (incoming_signals n) (received_signals n) = ?received"
    by (rule drain_latest)
  with deps queue show "check_signals n =
      (evaluate (signal_ast n) ?received,
       n\<lparr>received_signals := ?received, incoming_signals := []\<rparr>)"
    by (simp add: check_signals_def Let_def)
qed


theorem check_signals_cases_witness:
  "dependent_nodes (BaseNode_init ''A'' (PyStr ''DEFAULT_SIGNAL'') [] True) = {}
   \<and> check_signals (BaseNode_init ''A'' (PyStr ''DEFAULT_SIGNAL'') [] True)
       = (Inr True, BaseNode_init ''A'' (PyStr ''DEFAULT_SIGNAL'') [] True)
   \<and> dependent_nodes listener \<noteq> {} \<and> incoming_signals listener = []
   \<and> check_signals listener = (Inr False, listener)
   \<and> incoming_signals (listener\<lparr>incoming_signals := [message_from ''A'' FAILURE]\<rparr>) \<noteq> []
   \<and> fst (check_signals (listener\<lparr>incoming_signals := [message_from ''A'' FAILURE]\<rparr>)) = Inr False"
proof -
  have a: "dependent_nodes (BaseNode_init ''A'' (PyStr ''DEFAULT_SIGNAL'') [] True) = {}"
    by (simp add: BaseNode_init_def)
  have b: "dependent_nodes listener \<noteq> {}" "incoming_signals listener = []"
    by (simp_all add: listener_fields)
  have c: "dependent_nodes (listener\<lparr>incoming_signals := [message_from ''A'' FAILURE]\<rparr>) \<noteq> {}"
    "incoming_signals (listener\<lparr>incoming_signals := [message_from ''A'' FAILURE]\<rparr>) \<noteq> []"
    by (simp_all add: listener_fields)
  have d: "evaluate (signal_ast listener)
      (drained_map [message_from ''A'' FAILURE] (received_signals listener)) = Inr False"
    by (simp add: listener_fields apply_operation_def leaf_value_def drained_map_def
        latest_from_def message_from_def)
  show ?thesis
    using a b c d
      check_signals_cases [of "BaseNode_init ''A'' (PyStr ''DEFAULT_SIGNAL'') [] True"]
      check_signals_cases [of listener]
      check_signals_cases [of "listener\<lparr>incoming_signals := [message_from ''A'' FAILURE]\<rparr>"]
    by simp
qed


text \<open>
  The claim C2 as written fails: with predecessors, \<open>check_signals\<close> returns false
  also when the expression evaluates to true. The listener \<open>B\<close> of \<open>A\<close> receives
  SUCCESS from \<open>A\<close>: the first check drains the queue and returns true. Nothing
  changes, the expression still evaluates to true against the received signals,
  and the second check returns false because the queue is empty.
\<close>

theorem check_signals_false_while_gate_true:
  "fst (check_signals (listener\<lparr>incoming_signals := [message_from ''A'' SUCCESS]\<rparr>)) = Inr True
   \<and> dependent_nodes
        (snd (check_signals (listener\<lparr>incoming_signals := [message_from ''A'' SUCCESS]\<rparr>))) \<noteq> {}
   \<and> evaluate
        (signal_ast (snd (check_signals (listener\<lparr>incoming_signals := [message_from ''A'' SUCCESS]\<rparr>))))
        (received_signals
           (snd (check_signals (listener\<lparr>incoming_signals := [message_from ''A'' SUCCESS]\<rparr>))))
       = Inr True
   \<and> fst (check_signals
        (snd (check_signals (listener\<lparr>incoming_signals := [message_from ''A'' SUCCESS]\<rparr>))))
       = Inr False"
  by (simp add: check_signals_def Let_def listener_fields apply_operation_def leaf_value_def
      message_from_def)

section \<open>Properties of the worker\<close>

lemma pausable_wait_not_paused: "st \<noteq> PAUSED \<Longrightarrow> pausable_wait st = Some ()"
  by (simp add: pausable_wait.simps)

lemma pausable_wait_Some: "pausable_wait st = Some y \<Longrightarrow> st \<noteq> PAUSED"
proof (rule pausable_wait.raw_induct [where P = "\<lambda>st y. st \<noteq> PAUSED"])
  fix f :: "Status \<Rightarrow> unit option" and st' y'
  assume "\<And>st y. f st = Some y \<Longrightarrow> st \<noteq> PAUSED"
    and "(if st' = PAUSED then f st' else Some ()) = Some y'"
  then show "st' \<noteq> PAUSED"
    by (auto split: if_splits)
qed

lemma pausable_wait_paused: "pausable_wait PAUSED = None"
  using pausable_wait_Some [of PAUSED] by (cases "pausable_wait PAUSED") auto

lemma pausable_not_paused: "status (node w) \<noteq> PAUSED \<Longrightarrow> pausable f w = f w"
  by (simp add: pausable_def pausable_wait_not_paused)

lemma put_all_count:
  "put_all rs m q s = q s @ replicate (count_list rs s) m"
  unfolding put_all_def
proof (induction rs arbitrary: q)
  case Nil
  show ?case by simp
next
  case (Cons r rs)
  let ?f = "\<lambda>n q. q(n := q n @ [m])"
  have "fold ?f (r # rs) q s = fold ?f rs (q(r := q r @ [m])) s"
    by (simp only: fold_simps o_apply)
  also have "\<dots> = (q(r := q r @ [m])) s @ replicate (count_list rs s) m"
    by (rule Cons.IH)
  also have "\<dots> = q s @ replicate (count_list (r # rs) s) m"
    by (simp add: replicate_app_Cons_same)
  finally show ?case .
qed

lemma check_signals_frame:
  assumes "check_signals n = (r, n')"
  shows "status n' = status n \<and> successors n' = successors n \<and> name n' = name n
    \<and> signal_type n' = signal_type n \<and> triggered n' = triggered n
    \<and> auto_trigger n' = auto_trigger n \<and> dependent_nodes n' = dependent_nodes n
    \<and> signal_ast n' = signal_ast n"
  using assms by (auto simp: check_signals_def Let_def split: if_splits)


lemma check_signals_waiting:
  "check_signals n = (r, n') \<Longrightarrow> check_signals (n\<lparr>waiting := b\<rparr>) = (r, n'\<lparr>waiting := b\<rparr>)"
  by (auto simp: check_signals_def Let_def split: if_splits)

lemma signal_message_str:
  "signal_type (node w) = PyStr s \<Longrightarrow>
   signal_message w st =
     Inr \<lparr>sender = name (node w), msg_signal_type = s, timestamp = clock w,
          msg_status = Some st\<rparr>"
  by (simp add: signal_message_def Message_init_def validate_str_def)

lemma signal_message_invalid:
  "validate_str (signal_type (node w)) = Inl e \<Longrightarrow> signal_message w st = Inl e"
  by (simp add: signal_message_def Message_init_def)

lemma validate_str_error: "validate_str v = Inl e \<Longrightarrow> e = ValidationError"
  by (cases v) (simp_all add: validate_str_def)

lemma reach_execute_phase:
  assumes "reaches_execute h w n1 u1"
  shows "loop_body h w =
     then_do (execute_phase h) (\<lambda>_. then_do run_reset_trigger (\<lambda>_. exit_check))
       (at_execute w n1 u1)"
proof -
  from assms obtain u0 where st: "status (node w) = RUNNING" and tr: "triggered (node w)"
    and cs: "check_signals (node w) = (Inr True, n1)"
    and pt: "hook_pre_trigger h (user w) = (Inr True, u0)"
    and pe: "hook_pre_execution h u0 = (Inr (), u1)"
    by (auto simp: reaches_execute_def)
  have st1: "status n1 = RUNNING" "triggered n1"
    using check_signals_frame [OF cs] st tr by simp_all
  show ?thesis
    using st tr pt pe st1 check_signals_waiting [OF cs, of False]
    by (simp add: loop_body_def running_branch_def then_do_def pausable_not_paused
        call_hook_def set_waiting_def run_check_signals_def at_execute_def)
qed

lemma at_execute_fields:
  assumes "reaches_execute h w n1 u1"
  shows "status (node (at_execute w n1 u1)) = RUNNING"
    and "successors (node (at_execute w n1 u1)) = successors (node w)"
    and "name (node (at_execute w n1 u1)) = name (node w)"
    and "signal_type (node (at_execute w n1 u1)) = signal_type (node w)"
    and "mail (at_execute w n1 u1) = mail w"
    and "clock (at_execute w n1 u1) = clock w"
    and "user (at_execute w n1 u1) = u1"
    and "calls (at_execute w n1 u1) = calls w @ [PreTrigger, CheckSignals, PreExecution]"
proof -
  from assms have st: "status (node w) = RUNNING"
    and cs: "check_signals (node w) = (Inr True, n1)"
    by (auto simp: reaches_execute_def)
  note fr = check_signals_frame [OF cs]
  show "status (node (at_execute w n1 u1)) = RUNNING"
    and "successors (node (at_execute w n1 u1)) = successors (node w)"
    and "name (node (at_execute w n1 u1)) = name (node w)"
    and "signal_type (node (at_execute w n1 u1)) = signal_type (node w)"
    and "mail (at_execute w n1 u1) = mail w"
    and "clock (at_execute w n1 u1) = clock w"
    and "user (at_execute w n1 u1) = u1"
    and "calls (at_execute w n1 u1) = calls w @ [PreTrigger, CheckSignals, PreExecution]"
    using fr st by (simp_all add: at_execute_def)
qed

text \<open>What the \<^verbatim>\<open>try\<close> body leaves behind when it raises.\<close>

lemma try_body_execute_raises:
  assumes "status (node w) \<noteq> PAUSED" and "hook_execute h (user w) = (Inl e, u2)"
  shows "try_body h w = (Raises e, w\<lparr>user := u2, calls := calls w @ [Execute]\<rparr>)"
  using assms by (simp add: try_body_def then_do_def pausable_not_paused call_hook_def)

lemma try_body_raises_after_true:
  assumes "status (node w) \<noteq> PAUSED" and "hook_execute h (user w) = (Inr True, u2)"
    and "raised_in_try h (signal_type (node w)) u2 e ur entered"
  shows "try_body h w = (Raises e, w\<lparr>user := ur, calls := calls w @ Execute # entered\<rparr>)"
proof -
  from assms(3) consider
      (success) "hook_on_success h u2 = (Inl e, ur)" "entered = [OnSuccess]"
    | (post) u3 where "hook_on_success h u2 = (Inr (), u3)"
        "hook_post_execution h u3 = (Inl e, ur)" "entered = [OnSuccess, PostExecution]"
    | (emission) u3 where "hook_on_success h u2 = (Inr (), u3)"
        "hook_post_execution h u3 = (Inr (), ur)" "validate_str (signal_type (node w)) = Inl e"
        "entered = [OnSuccess, PostExecution, SendSignals SUCCESS]"
    unfolding raised_in_try_def by blast
  then show ?thesis
  proof cases
    case success
    with assms(1,2) show ?thesis
      by (simp add: try_body_def then_do_def pausable_not_paused call_hook_def)
  next
    case post
    with assms(1,2) show ?thesis
      by (simp add: try_body_def then_do_def pausable_not_paused call_hook_def)
  next
    case emission
    have "signal_message (w\<lparr>user := ur,
        calls := calls w @ [Execute, OnSuccess, PostExecution]\<rparr>) SUCCESS = Inl e"
      using emission(3) by (intro signal_message_invalid) simp
    with emission assms(1,2) show ?thesis
      by (simp add: try_body_def then_do_def pausable_not_paused call_hook_def
          send_signals_def)
  qed
qed

text \<open>
  The four ways through the handler: \<^verbatim>\<open>on_failure\<close> raises; \<^verbatim>\<open>post_execution\<close>
  raises; the FAILURE message cannot be built; FAILURE is put on the queue of every
  successor.
\<close>

lemma failure_handler_on_failure_raises:
  assumes "status (node w) \<noteq> PAUSED"
    and "hook_on_failure h (Some e) (user w) = (Inl e', u3)"
  shows "failure_handler h e w =
     (Raises e', w\<lparr>user := u3, calls := calls w @ [OnFailure (Some e)]\<rparr>)"
  using assms by (simp add: failure_handler_def then_do_def pausable_not_paused call_hook_def)

lemma failure_handler_post_execution_raises:
  assumes "status (node w) \<noteq> PAUSED"
    and "hook_on_failure h (Some e) (user w) = (Inr (), u3)"
    and "hook_post_execution h u3 = (Inl e', u4)"
  shows "failure_handler h e w =
     (Raises e', w\<lparr>user := u4, calls := calls w @ [OnFailure (Some e), PostExecution]\<rparr>)"
  using assms by (simp add: failure_handler_def then_do_def pausable_not_paused call_hook_def)

lemma failure_handler_message_invalid:
  assumes "status (node w) \<noteq> PAUSED"
    and "hook_on_failure h (Some e) (user w) = (Inr (), u3)"
    and "hook_post_execution h u3 = (Inr (), u4)"
    and "validate_str (signal_type (node w)) = Inl e'"
  shows "failure_handler h e w =
     (Raises e',
      w\<lparr>user := u4,
        calls := calls w @ [OnFailure (Some e), PostExecution, SendSignals FAILURE]\<rparr>)"
proof -
  have "signal_message (w\<lparr>user := u4,
      calls := calls w @ [OnFailure (Some e), PostExecution]\<rparr>) FAILURE = Inl e'"
    using assms(4) by (intro signal_message_invalid) simp
  with assms(1-3) show ?thesis
    by (simp add: failure_handler_def then_do_def pausable_not_paused call_hook_def
        send_signals_def)
qed

lemma failure_handler_sends_failure:
  assumes "status (node w) \<noteq> PAUSED"
    and "hook_on_failure h (Some e) (user w) = (Inr (), u3)"
    and "hook_post_execution h u3 = (Inr (), u4)"
    and "signal_type (node w) = PyStr s"
  shows "failure_handler h e w =
     (Returns (),
      w\<lparr>user := u4,
        mail := put_all (successors (node w))
          \<lparr>sender = name (node w), msg_signal_type = s, timestamp = clock w,
            msg_status = Some FAILURE\<rparr> (mail w),
        calls := calls w @ [OnFailure (Some e), PostExecution, SendSignals FAILURE]\<rparr>)"
proof -
  have "signal_message (w\<lparr>user := u4,
      calls := calls w @ [OnFailure (Some e), PostExecution]\<rparr>) FAILURE =
      Inr \<lparr>sender = name (node w), msg_signal_type = s, timestamp = clock w,
           msg_status = Some FAILURE\<rparr>"
    using assms(4) signal_message_str [of "w\<lparr>user := u4,
      calls := calls w @ [OnFailure (Some e), PostExecution]\<rparr>" s FAILURE]
    by simp
  with assms(1-3) show ?thesis
    by (simp add: failure_handler_def then_do_def pausable_not_paused call_hook_def
        send_signals_def)
qed

text \<open>
  A pass that reaches the \<^verbatim>\<open>try\<close> statement and whose \<^verbatim>\<open>try\<close> body raises \<open>e\<close>,
  leaving the worker \<open>wr\<close> with the node, the queues and the clock untouched: what
  becomes of the run, by the way through the handler.
\<close>

lemma handled_pass:
  assumes reach: "reaches_execute h w n1 u1"
    and body: "try_body h (at_execute w n1 u1) = (Raises e, wr)"
    and frame: "node wr = node (at_execute w n1 u1)" "mail wr = mail w" "clock wr = clock w"
  shows "hook_on_failure h (Some e) (user wr) = (Inl e', u3) \<Longrightarrow>
      \<exists>w'. run_loop h (Idle # schedule) w = Died e' w'
        \<and> calls w' = calls wr @ [OnFailure (Some e)]
        \<and> mail w' = mail w \<and> user w' = u3"
    and "hook_on_failure h (Some e) (user wr) = (Inr (), u3) \<Longrightarrow>
      hook_post_execution h u3 = (Inl e', u4) \<Longrightarrow>
      \<exists>w'. run_loop h (Idle # schedule) w = Died e' w'
        \<and> calls w' = calls wr @ [OnFailure (Some e), PostExecution]
        \<and> mail w' = mail w \<and> user w' = u4"
    and "hook_on_failure h (Some e) (user wr) = (Inr (), u3) \<Longrightarrow>
      hook_post_execution h u3 = (Inr (), u4) \<Longrightarrow>
      validate_str (signal_type (node w)) = Inl e' \<Longrightarrow>
      \<exists>w'. run_loop h (Idle # schedule) w = Died e' w'
        \<and> calls w' = calls wr @ [OnFailure (Some e), PostExecution, SendSignals FAILURE]
        \<and> mail w' = mail w \<and> user w' = u4"
    and "hook_on_failure h (Some e) (user wr) = (Inr (), u3) \<Longrightarrow>
      hook_post_execution h u3 = (Inr (), u4) \<Longrightarrow>
      signal_type (node w) = PyStr s \<Longrightarrow>
      \<exists>w'. loop_body h w = (Returns Continue, w')
        \<and> run_loop h (Idle # schedule) w = run_loop h schedule w'
        \<and> calls w' = calls wr @ [OnFailure (Some e), PostExecution, SendSignals FAILURE]
        \<and> (\<forall>r. mail w' r =
              mail w r @ replicate (count_list (successors (node w)) r)
                \<lparr>sender = name (node w), msg_signal_type = s, timestamp = clock w,
                  msg_status = Some FAILURE\<rparr>)
        \<and> user w' = u4 \<and> status (node w') = RUNNING"
proof -
  note at = at_execute_fields [OF reach]
  have st: "status (node wr) \<noteq> PAUSED" and run: "status (node wr) = RUNNING"
    and succ: "successors (node wr) = successors (node w)"
    and nm: "name (node wr) = name (node w)"
    and sg: "signal_type (node wr) = signal_type (node w)"
    using frame(1) at by simp_all
  have idle: "apply_env Idle w = w"
    by (simp add: apply_env_def)
  have body': "loop_body h w =
      then_do (failure_handler h e) (\<lambda>_. then_do run_reset_trigger (\<lambda>_. exit_check)) wr"
    unfolding reach_execute_phase [OF reach]
    by (simp add: execute_phase_def try_except_def then_do_def body)
  {
    assume "hook_on_failure h (Some e) (user wr) = (Inl e', u3)"
    from failure_handler_on_failure_raises [OF st this]
    show "\<exists>w'. run_loop h (Idle # schedule) w = Died e' w'
        \<and> calls w' = calls wr @ [OnFailure (Some e)]
        \<and> mail w' = mail w \<and> user w' = u3"
      by (simp add: idle body' then_do_def frame)
  next
    assume "hook_on_failure h (Some e) (user wr) = (Inr (), u3)"
      and "hook_post_execution h u3 = (Inl e', u4)"
    from failure_handler_post_execution_raises [OF st this]
    show "\<exists>w'. run_loop h (Idle # schedule) w = Died e' w'
        \<and> calls w' = calls wr @ [OnFailure (Some e), PostExecution]
        \<and> mail w' = mail w \<and> user w' = u4"
      by (simp add: idle body' then_do_def frame)
  next
    assume a: "hook_on_failure h (Some e) (user wr) = (Inr (), u3)"
      "hook_post_execution h u3 = (Inr (), u4)"
      and v: "validate_str (signal_type (node w)) = Inl e'"
    from v sg have "validate_str (signal_type (node wr)) = Inl e'" by simp
    from failure_handler_message_invalid [OF st a this]
    show "\<exists>w'. run_loop h (Idle # schedule) w = Died e' w'
        \<and> calls w' = calls wr @ [OnFailure (Some e), PostExecution, SendSignals FAILURE]
        \<and> mail w' = mail w \<and> user w' = u4"
      by (simp add: idle body' then_do_def frame)
  next
    assume a: "hook_on_failure h (Some e) (user wr) = (Inr (), u3)"
      "hook_post_execution h u3 = (Inr (), u4)"
      and v: "signal_type (node w) = PyStr s"
    from v sg have "signal_type (node wr) = PyStr s" by simp
    from failure_handler_sends_failure [OF st a this]
    show "\<exists>w'. loop_body h w = (Returns Continue, w')
        \<and> run_loop h (Idle # schedule) w = run_loop h schedule w'
        \<and> calls w' = calls wr @ [OnFailure (Some e), PostExecution, SendSignals FAILURE]
        \<and> (\<forall>r. mail w' r =
              mail w r @ replicate (count_list (successors (node w)) r)
                \<lparr>sender = name (node w), msg_signal_type = s, timestamp = clock w,
                  msg_status = Some FAILURE\<rparr>)
        \<and> user w' = u4 \<and> status (node w') = RUNNING"
      using run succ nm
      by (simp add: idle body' then_do_def frame run_reset_trigger_def exit_check_def
          reset_trigger_def put_all_count)
  }
qed

lemma producer_fields:
  "dependent_nodes producer = {}" "successors producer = [''B'']" "triggered producer"
  "auto_trigger producer" "name producer = ''A''"
  "signal_type producer = PyStr ''DEFAULT_SIGNAL''" "status producer = OFF"
  by (simp_all add: producer_def BaseNode_init_def)

lemma watcher_fields:
  "dependent_nodes watcher = {}" "successors watcher = [''B'']" "\<not> triggered watcher"
  "\<not> auto_trigger watcher" "name watcher = ''folder1''"
  "signal_type watcher = PyNone" "status watcher = OFF" "incoming_signals watcher = []"
  by (simp_all add: watcher_def DirWatchNode_init_def ResourceNode_init_def
      BaseNode_init_def BaseNode.truncate_def BaseNode.extend_def)

lemma reaches_execute_simple:
  assumes "status (node w) = RUNNING" and "triggered (node w)"
    and "dependent_nodes (node w) = {}"
    and "hook_pre_trigger h = returns_value True" and "hook_pre_execution h = passes"
  shows "reaches_execute h w (node w) (user w)"
  using assms
  by (simp add: reaches_execute_def check_signals_def returns_value_def passes_def)

text \<open>
  C4, as the code has it. A pass of the loop has reached the \<^verbatim>\<open>try\<close> statement and
  \<^verbatim>\<open>execute\<close> raises \<open>e\<close>. The worker calls \<^verbatim>\<open>on_failure(e)\<close>. If that returns it
  calls \<^verbatim>\<open>post_execution\<close>; if that returns too it builds the FAILURE message, and
  if the signal type of the node is a string it puts the message on the queue of
  every successor (once per entry of the successor list) and the loop goes on to its
  next pass with the status still RUNNING. In the three other cases, where
  \<^verbatim>\<open>on_failure\<close> raises, or \<^verbatim>\<open>post_execution\<close> raises, or the message cannot be
  built because the signal type is not a string, that exception ends the run: what
  had been entered was entered, and no queue has changed.
\<close>

theorem execute_raises_failure_path:
  assumes "reaches_execute h w n1 u1" and "hook_execute h u1 = (Inl e, u2)"
  shows
   "(hook_on_failure h (Some e) u2 = (Inr (), u3) \<longrightarrow>
     hook_post_execution h u3 = (Inr (), u4) \<longrightarrow>
     signal_type (node w) = PyStr s \<longrightarrow>
       (\<exists>w'. loop_body h w = (Returns Continue, w')
          \<and> run_loop h (Idle # schedule) w = run_loop h schedule w'
          \<and> calls w' = calls w @ [PreTrigger, CheckSignals, PreExecution, Execute,
               OnFailure (Some e), PostExecution, SendSignals FAILURE]
          \<and> (\<forall>r. mail w' r =
                mail w r @ replicate (count_list (successors (node w)) r)
                  \<lparr>sender = name (node w), msg_signal_type = s, timestamp = clock w,
                    msg_status = Some FAILURE\<rparr>)
          \<and> user w' = u4 \<and> status (node w') = RUNNING))
    \<and> (hook_on_failure h (Some e) u2 = (Inl e', u3) \<longrightarrow>
       (\<exists>w'. run_loop h (Idle # schedule) w = Died e' w'
          \<and> calls w' = calls w @ [PreTrigger, CheckSignals, PreExecution, Execute,
               OnFailure (Some e)]
          \<and> mail w' = mail w \<and> user w' = u3))
    \<and> (hook_on_failure h (Some e) u2 = (Inr (), u3) \<longrightarrow>
       hook_post_execution h u3 = (Inl e', u4) \<longrightarrow>
       (\<exists>w'. run_loop h (Idle # schedule) w = Died e' w'
          \<and> calls w' = calls w @ [PreTrigger, CheckSignals, PreExecution, Execute,
               OnFailure (Some e), PostExecution]
          \<and> mail w' = mail w \<and> user w' = u4))
    \<and> (hook_on_failure h (Some e) u2 = (Inr (), u3) \<longrightarrow>
       hook_post_execution h u3 = (Inr (), u4) \<longrightarrow>
       validate_str (signal_type (node w)) = Inl e' \<longrightarrow>
       (\<exists>w'. run_loop h (Idle # schedule) w = Died e' w'
          \<and> calls w' = calls w @ [PreTrigger, CheckSignals, PreExecution, Execute,
               OnFailure (Some e), PostExecution, SendSignals FAILURE]
          \<and> mail w' = mail w \<and> user w' = u4))"
proof -
  note at = at_execute_fields [OF assms(1)]
  let ?wr = "(at_execute w n1 u1)\<lparr>user := u2, calls := calls (at_execute w n1 u1) @ [Execute]\<rparr>"
  have body: "try_body h (at_execute w n1 u1) = (Raises e, ?wr)"
    using at assms(2) by (intro try_body_execute_raises) simp_all
  have frame: "node ?wr = node (at_execute w n1 u1)" "mail ?wr = mail w" "clock ?wr = clock w"
    using at by simp_all
  have wr: "user ?wr = u2"
    "calls ?wr = calls w @ [PreTrigger, CheckSignals, PreExecution, Execute]"
    using at by simp_all
  note hp = handled_pass [OF assms(1) body frame, where schedule = schedule]
  show ?thesis
  proof (intro conjI impI)
    assume "hook_on_failure h (Some e) u2 = (Inr (), u3)"
      "hook_post_execution h u3 = (Inr (), u4)" "signal_type (node w) = PyStr s"
    with hp(4) [of u3 u4 s] wr
    show "\<exists>w'. loop_body h w = (Returns Continue, w')
          \<and> run_loop h (Idle # schedule) w = run_loop h schedule w'
          \<and> calls w' = calls w @ [PreTrigger, CheckSignals, PreExecution, Execute,
               OnFailure (Some e), PostExecution, SendSignals FAILURE]
          \<and> (\<forall>r. mail w' r =
                mail w r @ replicate (count_list (successors (node w)) r)
                  \<lparr>sender = name (node w), msg_signal_type = s, timestamp = clock w,
                    msg_status = Some FAILURE\<rparr>)
          \<and> user w' = u4 \<and> status (node w') = RUNNING"
      by simp
  next
    assume "hook_on_failure h (Some e) u2 = (Inl e', u3)"
    with hp(1) [of e' u3] wr
    show "\<exists>w'. run_loop h (Idle # schedule) w = Died e' w'
          \<and> calls w' = calls w @ [PreTrigger, CheckSignals, PreExecution, Execute,
               OnFailure (Some e)]
          \<and> mail w' = mail w \<and> user w' = u3"
      by simp
  next
    assume "hook_on_failure h (Some e) u2 = (Inr (), u3)"
      "hook_post_execution h u3 = (Inl e', u4)"
    with hp(2) [of u3 e' u4] wr
    show "\<exists>w'. run_loop h (Idle # schedule) w = Died e' w'
          \<and> calls w' = calls w @ [PreTrigger, CheckSignals, PreExecution, Execute,
               OnFailure (Some e), PostExecution]
          \<and> mail w' = mail w \<and> user w' = u4"
      by simp
  next
    assume "hook_on_failure h (Some e) u2 = (Inr (), u3)"
      "hook_post_execution h u3 = (Inr (), u4)"
      "validate_str (signal_type (node w)) = Inl e'"
    with hp(3) [of u3 u4 e'] wr
    show "\<exists>w'. run_loop h (Idle # schedule) w = Died e' w'
          \<and> calls w' = calls w @ [PreTrigger, CheckSignals, PreExecution, Execute,
               OnFailure (Some e), PostExecution, SendSignals FAILURE]
          \<and> mail w' = mail w \<and> user w' = u4"
      by simp
  qed
qed

lemma running_producer:
  assumes "hook_pre_trigger h = returns_value True" and "hook_pre_execution h = passes"
  shows "reaches_execute h (fresh_worker (producer\<lparr>status := RUNNING\<rparr>) u)
     (node (fresh_worker (producer\<lparr>status := RUNNING\<rparr>) u)) u"
  using reaches_execute_simple [of "fresh_worker (producer\<lparr>status := RUNNING\<rparr>) u" h] assms
  by (simp add: fresh_worker_def producer_fields)

lemma running_watcher:
  assumes "hook_pre_trigger h = returns_value True" and "hook_pre_execution h = passes"
  shows "reaches_execute h (fresh_worker (watcher\<lparr>status := RUNNING, triggered := True\<rparr>) u)
     (node (fresh_worker (watcher\<lparr>status := RUNNING, triggered := True\<rparr>) u)) u"
  using reaches_execute_simple
    [of "fresh_worker (watcher\<lparr>status := RUNNING, triggered := True\<rparr>) u" h] assms
  by (simp add: fresh_worker_def watcher_fields)

lemma example_hooks:
  "hook_pre_trigger execute_fails = returns_value True"
  "hook_pre_execution execute_fails = passes"
  "hook_pre_trigger handler_fails = returns_value True"
  "hook_pre_execution handler_fails = passes"
  "hook_pre_trigger post_and_execute_fail = returns_value True"
  "hook_pre_execution post_and_execute_fail = passes"
  "hook_pre_trigger success_fails = returns_value True"
  "hook_pre_execution success_fails = passes"
  "hook_pre_trigger post_fails = returns_value True"
  "hook_pre_execution post_fails = passes"
  "hook_pre_trigger post_fails_once = returns_value True"
  "hook_pre_execution post_fails_once = passes"
  "hook_pre_trigger default_hooks = returns_value True"
  "hook_pre_execution default_hooks = passes"
  by (simp_all add: execute_fails_def handler_fails_def post_and_execute_fail_def
      success_fails_def post_fails_def post_fails_once_def default_hooks_def)

theorem execute_raises_failure_path_witness:
  "reaches_execute execute_fails (fresh_worker (producer\<lparr>status := RUNNING\<rparr>) ())
     (node (fresh_worker (producer\<lparr>status := RUNNING\<rparr>) ())) ()
   \<and> hook_execute execute_fails () = (Inl (HookError ''execute''), ())
   \<and> (\<exists>w'. loop_body execute_fails (fresh_worker (producer\<lparr>status := RUNNING\<rparr>) ())
              = (Returns Continue, w')
        \<and> calls w' = [PreTrigger, CheckSignals, PreExecution, Execute,
             OnFailure (Some (HookError ''execute'')), PostExecution, SendSignals FAILURE]
        \<and> mail w' ''B'' = [message_from ''A'' FAILURE])
   \<and> (\<exists>w'. run_loop handler_fails [Idle] (fresh_worker (producer\<lparr>status := RUNNING\<rparr>) ())
              = Died (HookError ''on_failure'') w'
        \<and> calls w' = [PreTrigger, CheckSignals, PreExecution, Execute,
             OnFailure (Some (HookError ''execute''))]
        \<and> mail w' ''B'' = [])
   \<and> (\<exists>w'. run_loop post_and_execute_fail [Idle]
               (fresh_worker (producer\<lparr>status := RUNNING\<rparr>) ())
              = Died (HookError ''post_execution'') w'
        \<and> calls w' = [PreTrigger, CheckSignals, PreExecution, Execute,
             OnFailure (Some (HookError ''execute'')), PostExecution]
        \<and> mail w' ''B'' = [])
   \<and> (\<exists>w'. run_loop execute_fails [Idle]
               (fresh_worker (watcher\<lparr>status := RUNNING, triggered := True\<rparr>) ())
              = Died ValidationError w'
        \<and> calls w' = [PreTrigger, CheckSignals, PreExecution, Execute,
             OnFailure (Some (HookError ''execute'')), PostExecution, SendSignals FAILURE]
        \<and> mail w' ''B'' = [])"
proof -
  let ?p = "fresh_worker (producer\<lparr>status := RUNNING\<rparr>) ()"
  let ?d = "fresh_worker (watcher\<lparr>status := RUNNING, triggered := True\<rparr>) ()"
  have r1: "reaches_execute execute_fails ?p (node ?p) ()"
    and r2: "reaches_execute handler_fails ?p (node ?p) ()"
    and r3: "reaches_execute post_and_execute_fail ?p (node ?p) ()"
    by (simp_all add: running_producer example_hooks)
  have r4: "reaches_execute execute_fails ?d (node ?d) ()"
    by (simp add: running_watcher example_hooks)
  have e1: "hook_execute execute_fails () = (Inl (HookError ''execute''), ())"
    and e2: "hook_execute handler_fails () = (Inl (HookError ''execute''), ())"
    and e3: "hook_execute post_and_execute_fail () = (Inl (HookError ''execute''), ())"
    by (simp_all add: execute_fails_def handler_fails_def post_and_execute_fail_def
        default_hooks_def raises_def)
  have h1: "hook_on_failure execute_fails (Some (HookError ''execute'')) () = (Inr (), ())"
    "hook_post_execution execute_fails () = (Inr (), ())"
    by (simp_all add: execute_fails_def default_hooks_def passes_def)
  have h2: "hook_on_failure handler_fails (Some (HookError ''execute'')) ()
      = (Inl (HookError ''on_failure''), ())"
    by (simp add: handler_fails_def default_hooks_def raises_def)
  have h3: "hook_on_failure post_and_execute_fail (Some (HookError ''execute'')) ()
      = (Inr (), ())"
    "hook_post_execution post_and_execute_fail () = (Inl (HookError ''post_execution''), ())"
    by (simp_all add: post_and_execute_fail_def default_hooks_def passes_def raises_def)
  have s1: "signal_type (node ?p) = PyStr ''DEFAULT_SIGNAL''"
    by (simp add: fresh_worker_def producer_fields)
  have s4: "validate_str (signal_type (node ?d)) = Inl ValidationError"
    by (simp add: fresh_worker_def watcher_fields validate_str_def)
  have f: "calls ?p = []" "mail ?p = (\<lambda>_. [])" "successors (node ?p) = [''B'']"
    "name (node ?p) = ''A''" "clock ?p = 0" "calls ?d = []" "mail ?d = (\<lambda>_. [])"
    by (simp_all add: fresh_worker_def producer_fields)
  from execute_raises_failure_path
    [OF r1 e1, where schedule = "[]", THEN conjunct1, rule_format, OF h1 s1]
  obtain wa where "loop_body execute_fails ?p = (Returns Continue, wa)"
    "calls wa = calls ?p @ [PreTrigger, CheckSignals, PreExecution, Execute,
       OnFailure (Some (HookError ''execute'')), PostExecution, SendSignals FAILURE]"
    "\<forall>r. mail wa r = mail ?p r @ replicate (count_list (successors (node ?p)) r)
       \<lparr>sender = name (node ?p), msg_signal_type = ''DEFAULT_SIGNAL'', timestamp = clock ?p,
         msg_status = Some FAILURE\<rparr>"
    by blast
  then have a: "\<exists>w'. loop_body execute_fails ?p = (Returns Continue, w')
        \<and> calls w' = [PreTrigger, CheckSignals, PreExecution, Execute,
             OnFailure (Some (HookError ''execute'')), PostExecution, SendSignals FAILURE]
        \<and> mail w' ''B'' = [message_from ''A'' FAILURE]"
    by (intro exI [of _ wa]) (simp add: f message_from_def)
  from execute_raises_failure_path
    [OF r2 e2, where schedule = "[]", THEN conjunct2, THEN conjunct1, rule_format, OF h2]
  obtain wb where "run_loop handler_fails [Idle] ?p = Died (HookError ''on_failure'') wb"
    "calls wb = calls ?p @ [PreTrigger, CheckSignals, PreExecution, Execute,
       OnFailure (Some (HookError ''execute''))]"
    "mail wb = mail ?p"
    by blast
  then have b: "\<exists>w'. run_loop handler_fails [Idle] ?p = Died (HookError ''on_failure'') w'
        \<and> calls w' = [PreTrigger, CheckSignals, PreExecution, Execute,
             OnFailure (Some (HookError ''execute''))]
        \<and> mail w' ''B'' = []"
    by (intro exI [of _ wb]) (simp add: f)
  from execute_raises_failure_path
    [OF r3 e3, where schedule = "[]", THEN conjunct2, THEN conjunct2, THEN conjunct1,
      rule_format, OF h3]
  obtain wc where
    "run_loop post_and_execute_fail [Idle] ?p = Died (HookError ''post_execution'') wc"
    "calls wc = calls ?p @ [PreTrigger, CheckSignals, PreExecution, Execute,
       OnFailure (Some (HookError ''execute'')), PostExecution]"
    "mail wc = mail ?p"
    by blast
  then have c: "\<exists>w'. run_loop post_and_execute_fail [Idle] ?p
          = Died (HookError ''post_execution'') w'
        \<and> calls w' = [PreTrigger, CheckSignals, PreExecution, Execute,
             OnFailure (Some (HookError ''execute'')), PostExecution]
        \<and> mail w' ''B'' = []"
    by (intro exI [of _ wc]) (simp add: f)
  from execute_raises_failure_path
    [OF r4 e1, where schedule = "[]", THEN conjunct2, THEN conjunct2, THEN conjunct2,
      rule_format, OF h1 s4]
  obtain wd where "run_loop execute_fails [Idle] ?d = Died ValidationError wd"
    "calls wd = calls ?d @ [PreTrigger, CheckSignals, PreExecution, Execute,
       OnFailure (Some (HookError ''execute'')), PostExecution, SendSignals FAILURE]"
    "mail wd = mail ?d"
    by blast
  then have d: "\<exists>w'. run_loop execute_fails [Idle] ?d = Died ValidationError w'
        \<and> calls w' = [PreTrigger, CheckSignals, PreExecution, Execute,
             OnFailure (Some (HookError ''execute'')), PostExecution, SendSignals FAILURE]
        \<and> mail w' ''B'' = []"
    by (intro exI [of _ wd]) (simp add: f)
  from r1 e1 a b c d show ?thesis
    by (intro conjI)
qed

text \<open>
  The claim C4 as written fails for a node whose \<^verbatim>\<open>on_failure\<close> raises as well: the
  exception of the handler is not caught, so \<^verbatim>\<open>post_execution\<close> is not called, no
  FAILURE message reaches the successor \<open>B\<close>, and \<^verbatim>\<open>run\<close> ends with that exception
  in the first pass of the loop.
\<close>

theorem handler_raises_worker_dies:
  "hook_execute handler_fails () = (Inl (HookError ''execute''), ())
   \<and> (case run handler_fails [Idle, Idle] (fresh_worker producer ()) of
        Died e w' \<Rightarrow>
          e = HookError ''on_failure''
          \<and> calls w' = [StatusSet INIT, Setup, StatusSet RUNNING, PreTrigger, CheckSignals,
               PreExecution, Execute, OnFailure (Some (HookError ''execute''))]
          \<and> mail w' ''B'' = []
      | _ \<Rightarrow> False)"
  by (simp add: run_def handler_fails_def default_hooks_def passes_def raises_def
      returns_value_def fresh_worker_def producer_fields call_hook_def assign_status_def
      apply_env_def loop_body_def running_branch_def then_do_def pausable_def
      pausable_wait_not_paused set_waiting_def run_check_signals_def check_signals_def
      execute_phase_def try_body_def failure_handler_def try_except_def)

text \<open>
  C6. If \<^verbatim>\<open>setup\<close> raises, \<^verbatim>\<open>run\<close> returns whatever the schedule of the other threads
  is: the status was set to INIT and then to ERROR, the failure was printed, no hook
  but \<^verbatim>\<open>setup\<close> was entered, no round of emission took place and every queue of every
  other node is as it was.
\<close>

theorem setup_raises_error_status:
  assumes "hook_setup h (user w) = (Inl e, u')"
  shows "\<exists>w'. run h schedule w = Returned w'
     \<and> status (node w') = ERROR
     \<and> calls w' = calls w @ [StatusSet INIT, Setup, PrintSetupFailed e, StatusSet ERROR]
     \<and> mail w' = mail w
     \<and> user w' = u'"
  using assms by (simp add: run_def call_hook_def assign_status_def)


theorem setup_raises_error_status_witness:
  "hook_setup setup_fails (user (fresh_worker producer ())) = (Inl (HookError ''setup''), ())
   \<and> (\<exists>w'. run setup_fails [Idle, Trigger, Idle] (fresh_worker producer ()) = Returned w'
        \<and> status (node w') = ERROR
        \<and> calls w' = [StatusSet INIT, Setup, PrintSetupFailed (HookError ''setup''),
             StatusSet ERROR]
        \<and> mail w' ''B'' = [])"
proof -
  have s: "hook_setup setup_fails (user (fresh_worker producer ())) = (Inl (HookError ''setup''), ())"
    by (simp add: setup_fails_def default_hooks_def raises_def)
  obtain w' where "run setup_fails [Idle, Trigger, Idle] (fresh_worker producer ()) = Returned w'"
    and "status (node w') = ERROR"
    and "calls w' = calls (fresh_worker producer ()) @
       [StatusSet INIT, Setup, PrintSetupFailed (HookError ''setup''), StatusSet ERROR]"
    and "mail w' = mail (fresh_worker producer ())"
    using setup_raises_error_status [OF s] by blast
  then show ?thesis
    using s by (simp add: fresh_worker_def)
qed

text \<open>
  C10, as the code has it. A pass of the loop has reached the \<^verbatim>\<open>try\<close> statement,
  \<^verbatim>\<open>execute\<close> has returned true, and then \<^verbatim>\<open>on_success\<close> raises \<open>e\<close>, or
  \<^verbatim>\<open>post_execution\<close> raises \<open>e\<close>, or the SUCCESS message cannot be built because the
  signal type of the node is not a string (\<open>e\<close> is the validation error); \<open>entered\<close>
  lists what was entered after \<^verbatim>\<open>execute\<close>, and \<^verbatim>\<open>on_success\<close> is the first of it.
  The worker calls \<^verbatim>\<open>on_failure(e)\<close>, so \<^verbatim>\<open>on_success\<close> and \<^verbatim>\<open>on_failure\<close> are both
  entered in this pass. If \<^verbatim>\<open>on_failure\<close> returns, \<^verbatim>\<open>post_execution\<close> is called (again,
  when it had been entered); if that returns and the signal type is a string, the
  FAILURE message is put on the queue of every successor and the loop goes on to its
  next pass, although \<^verbatim>\<open>execute\<close> returned true. In the three other cases, where
  \<^verbatim>\<open>on_failure\<close> raises, or \<^verbatim>\<open>post_execution\<close> raises in the handler, or the FAILURE
  message cannot be built, that exception ends the run and no queue has changed.
\<close>

theorem failure_after_execute_returned_true:
  assumes "reaches_execute h w n1 u1" and "hook_execute h u1 = (Inr True, u2)"
    and "raised_in_try h (signal_type (node w)) u2 e ur entered"
  shows
   "hd entered = OnSuccess \<and> entered \<noteq> []
    \<and> (hook_on_failure h (Some e) ur = (Inr (), u3) \<longrightarrow>
       hook_post_execution h u3 = (Inr (), u4) \<longrightarrow>
       signal_type (node w) = PyStr s \<longrightarrow>
       (\<exists>w'. loop_body h w = (Returns Continue, w')
          \<and> run_loop h (Idle # schedule) w = run_loop h schedule w'
          \<and> calls w' = calls w @ [PreTrigger, CheckSignals, PreExecution, Execute] @ entered
               @ [OnFailure (Some e), PostExecution, SendSignals FAILURE]
          \<and> (\<forall>r. mail w' r =
                mail w r @ replicate (count_list (successors (node w)) r)
                  \<lparr>sender = name (node w), msg_signal_type = s, timestamp = clock w,
                    msg_status = Some FAILURE\<rparr>)
          \<and> user w' = u4 \<and> status (node w') = RUNNING))
    \<and> (hook_on_failure h (Some e) ur = (Inl e', u3) \<longrightarrow>
       (\<exists>w'. run_loop h (Idle # schedule) w = Died e' w'
          \<and> calls w' = calls w @ [PreTrigger, CheckSignals, PreExecution, Execute] @ entered
               @ [OnFailure (Some e)]
          \<and> mail w' = mail w \<and> user w' = u3))
    \<and> (hook_on_failure h (Some e) ur = (Inr (), u3) \<longrightarrow>
       hook_post_execution h u3 = (Inl e', u4) \<longrightarrow>
       (\<exists>w'. run_loop h (Idle # schedule) w = Died e' w'
          \<and> calls w' = calls w @ [PreTrigger, CheckSignals, PreExecution, Execute] @ entered
               @ [OnFailure (Some e), PostExecution]
          \<and> mail w' = mail w \<and> user w' = u4))
    \<and> (hook_on_failure h (Some e) ur = (Inr (), u3) \<longrightarrow>
       hook_post_execution h u3 = (Inr (), u4) \<longrightarrow>
       validate_str (signal_type (node w)) = Inl e' \<longrightarrow>
       (\<exists>w'. run_loop h (Idle # schedule) w = Died e' w'
          \<and> calls w' = calls w @ [PreTrigger, CheckSignals, PreExecution, Execute] @ entered
               @ [OnFailure (Some e), PostExecution, SendSignals FAILURE]
          \<and> mail w' = mail w \<and> user w' = u4))"
proof -
  note at = at_execute_fields [OF assms(1)]
  let ?wr = "(at_execute w n1 u1)\<lparr>user := ur,
    calls := calls (at_execute w n1 u1) @ Execute # entered\<rparr>"
  have sg: "signal_type (node (at_execute w n1 u1)) = signal_type (node w)"
    using at by simp
  have body: "try_body h (at_execute w n1 u1) = (Raises e, ?wr)"
    using at assms(2,3) by (intro try_body_raises_after_true) (simp_all add: sg)
  have frame: "node ?wr = node (at_execute w n1 u1)" "mail ?wr = mail w" "clock ?wr = clock w"
    using at by simp_all
  have wr: "user ?wr = ur"
    "calls ?wr = calls w @ [PreTrigger, CheckSignals, PreExecution, Execute] @ entered"
    using at by simp_all
  note hp = handled_pass [OF assms(1) body frame, where schedule = schedule]
  have first: "hd entered = OnSuccess \<and> entered \<noteq> []"
    using assms(3) unfolding raised_in_try_def by auto
  have ok: "\<exists>w'. loop_body h w = (Returns Continue, w')
          \<and> run_loop h (Idle # schedule) w = run_loop h schedule w'
          \<and> calls w' = calls w @ [PreTrigger, CheckSignals, PreExecution, Execute] @ entered
               @ [OnFailure (Some e), PostExecution, SendSignals FAILURE]
          \<and> (\<forall>r. mail w' r =
                mail w r @ replicate (count_list (successors (node w)) r)
                  \<lparr>sender = name (node w), msg_signal_type = s, timestamp = clock w,
                    msg_status = Some FAILURE\<rparr>)
          \<and> user w' = u4 \<and> status (node w') = RUNNING"
    if "hook_on_failure h (Some e) ur = (Inr (), u3)"
      "hook_post_execution h u3 = (Inr (), u4)" "signal_type (node w) = PyStr s"
    using hp(4) [of u3 u4 s] wr that by simp
  have handler: "\<exists>w'. run_loop h (Idle # schedule) w = Died e' w'
          \<and> calls w' = calls w @ [PreTrigger, CheckSignals, PreExecution, Execute] @ entered
               @ [OnFailure (Some e)]
          \<and> mail w' = mail w \<and> user w' = u3"
    if "hook_on_failure h (Some e) ur = (Inl e', u3)"
    using hp(1) [of e' u3] wr that by simp
  have post: "\<exists>w'. run_loop h (Idle # schedule) w = Died e' w'
          \<and> calls w' = calls w @ [PreTrigger, CheckSignals, PreExecution, Execute] @ entered
               @ [OnFailure (Some e), PostExecution]
          \<and> mail w' = mail w \<and> user w' = u4"
    if "hook_on_failure h (Some e) ur = (Inr (), u3)"
      "hook_post_execution h u3 = (Inl e', u4)"
    using hp(2) [of u3 e' u4] wr that by simp
  have invalid: "\<exists>w'. run_loop h (Idle # schedule) w = Died e' w'
          \<and> calls w' = calls w @ [PreTrigger, CheckSignals, PreExecution, Execute] @ entered
               @ [OnFailure (Some e), PostExecution, SendSignals FAILURE]
          \<and> mail w' = mail w \<and> user w' = u4"
    if "hook_on_failure h (Some e) ur = (Inr (), u3)"
      "hook_post_execution h u3 = (Inr (), u4)"
      "validate_str (signal_type (node w)) = Inl e'"
    using hp(3) [of u3 u4 e'] wr that by simp
  from first ok handler post invalid show ?thesis
    by blast
qed

theorem failure_after_execute_returned_true_witness:
  "reaches_execute success_fails (fresh_worker (producer\<lparr>status := RUNNING\<rparr>) ())
     (node (fresh_worker (producer\<lparr>status := RUNNING\<rparr>) ())) ()
   \<and> hook_execute success_fails () = (Inr True, ())
   \<and> raised_in_try success_fails (PyStr ''DEFAULT_SIGNAL'') () (HookError ''on_success'') ()
        [OnSuccess]
   \<and> (\<exists>w'. loop_body success_fails (fresh_worker (producer\<lparr>status := RUNNING\<rparr>) ())
              = (Returns Continue, w')
        \<and> calls w' = [PreTrigger, CheckSignals, PreExecution, Execute, OnSuccess,
             OnFailure (Some (HookError ''on_success'')), PostExecution, SendSignals FAILURE]
        \<and> mail w' ''B'' = [message_from ''A'' FAILURE])
   \<and> raised_in_try post_fails_once (PyStr ''DEFAULT_SIGNAL'') 0 (HookError ''post_execution'')
        (Suc 0) [OnSuccess, PostExecution]
   \<and> (\<exists>w'. loop_body post_fails_once (fresh_worker (producer\<lparr>status := RUNNING\<rparr>) 0)
              = (Returns Continue, w')
        \<and> calls w' = [PreTrigger, CheckSignals, PreExecution, Execute, OnSuccess,
             PostExecution, OnFailure (Some (HookError ''post_execution'')), PostExecution,
             SendSignals FAILURE]
        \<and> mail w' ''B'' = [message_from ''A'' FAILURE])
   \<and> (\<exists>w'. run_loop post_fails [Idle] (fresh_worker (producer\<lparr>status := RUNNING\<rparr>) ())
              = Died (HookError ''post_execution'') w'
        \<and> calls w' = [PreTrigger, CheckSignals, PreExecution, Execute, OnSuccess,
             PostExecution, OnFailure (Some (HookError ''post_execution'')), PostExecution]
        \<and> mail w' ''B'' = [])
   \<and> raised_in_try default_hooks PyNone () ValidationError ()
        [OnSuccess, PostExecution, SendSignals SUCCESS]
   \<and> (\<exists>w'. run_loop default_hooks [Idle]
               (fresh_worker (watcher\<lparr>status := RUNNING, triggered := True\<rparr>) ())
              = Died ValidationError w'
        \<and> calls w' = [PreTrigger, CheckSignals, PreExecution, Execute, OnSuccess,
             PostExecution, SendSignals SUCCESS, OnFailure (Some ValidationError),
             PostExecution, SendSignals FAILURE]
        \<and> mail w' ''B'' = [])"
proof -
  let ?p = "fresh_worker (producer\<lparr>status := RUNNING\<rparr>) ()"
  let ?q = "fresh_worker (producer\<lparr>status := RUNNING\<rparr>) (0::nat)"
  let ?d = "fresh_worker (watcher\<lparr>status := RUNNING, triggered := True\<rparr>) ()"
  have r1: "reaches_execute success_fails ?p (node ?p) ()"
    and r3: "reaches_execute post_fails ?p (node ?p) ()"
    by (simp_all add: running_producer example_hooks)
  have r2: "reaches_execute post_fails_once ?q (node ?q) 0"
    by (simp add: running_producer example_hooks)
  have r4: "reaches_execute default_hooks ?d (node ?d) ()"
    by (simp add: running_watcher example_hooks)
  have e1: "hook_execute success_fails () = (Inr True, ())"
    and e2: "hook_execute post_fails_once 0 = (Inr True, 0)"
    and e3: "hook_execute post_fails () = (Inr True, ())"
    and e4: "hook_execute default_hooks () = (Inr True, ())"
    by (simp_all add: success_fails_def post_fails_once_def post_fails_def default_hooks_def
        returns_value_def)
  have sp: "signal_type (node ?p) = PyStr ''DEFAULT_SIGNAL''"
    and sq: "signal_type (node ?q) = PyStr ''DEFAULT_SIGNAL''"
    and sd: "signal_type (node ?d) = PyNone"
    by (simp_all add: fresh_worker_def producer_fields watcher_fields)
  have t1: "raised_in_try success_fails (PyStr ''DEFAULT_SIGNAL'') ()
      (HookError ''on_success'') () [OnSuccess]"
    by (simp add: raised_in_try_def success_fails_def default_hooks_def raises_def)
  have t2: "raised_in_try post_fails_once (PyStr ''DEFAULT_SIGNAL'') 0
      (HookError ''post_execution'') (Suc 0) [OnSuccess, PostExecution]"
    by (simp add: raised_in_try_def post_fails_once_def default_hooks_def passes_def)
  have t3: "raised_in_try post_fails (PyStr ''DEFAULT_SIGNAL'') ()
      (HookError ''post_execution'') () [OnSuccess, PostExecution]"
    by (simp add: raised_in_try_def post_fails_def default_hooks_def passes_def raises_def)
  have t4: "raised_in_try default_hooks PyNone () ValidationError ()
      [OnSuccess, PostExecution, SendSignals SUCCESS]"
    by (simp add: raised_in_try_def default_hooks_def passes_def validate_str_def)
  have h1: "hook_on_failure success_fails (Some (HookError ''on_success'')) () = (Inr (), ())"
    "hook_post_execution success_fails () = (Inr (), ())"
    by (simp_all add: success_fails_def default_hooks_def passes_def)
  have h2: "hook_on_failure post_fails_once (Some (HookError ''post_execution'')) (Suc 0)
      = (Inr (), Suc 0)"
    "hook_post_execution post_fails_once (Suc 0) = (Inr (), Suc 0)"
    by (simp_all add: post_fails_once_def default_hooks_def passes_def)
  have h3: "hook_on_failure post_fails (Some (HookError ''post_execution'')) () = (Inr (), ())"
    "hook_post_execution post_fails () = (Inl (HookError ''post_execution''), ())"
    by (simp_all add: post_fails_def default_hooks_def passes_def raises_def)
  have h4: "hook_on_failure default_hooks (Some ValidationError) () = (Inr (), ())"
    "hook_post_execution default_hooks () = (Inr (), ())"
    by (simp_all add: default_hooks_def passes_def)
  have v4: "validate_str (signal_type (node ?d)) = Inl ValidationError"
    by (simp add: sd validate_str_def)
  have f: "calls ?p = []" "mail ?p = (\<lambda>_. [])" "successors (node ?p) = [''B'']"
    "name (node ?p) = ''A''" "clock ?p = 0" "calls ?d = []" "mail ?d = (\<lambda>_. [])"
    "calls ?q = []" "mail ?q = (\<lambda>_. [])" "successors (node ?q) = [''B'']"
    "name (node ?q) = ''A''" "clock ?q = 0"
    by (simp_all add: fresh_worker_def producer_fields)
  from failure_after_execute_returned_true
    [OF r1 e1 t1 [folded sp], where schedule = "[]", THEN conjunct2, THEN conjunct2,
      THEN conjunct1, rule_format, OF h1 sp]
  obtain wa where "loop_body success_fails ?p = (Returns Continue, wa)"
    "calls wa = calls ?p @ [PreTrigger, CheckSignals, PreExecution, Execute] @ [OnSuccess]
       @ [OnFailure (Some (HookError ''on_success'')), PostExecution, SendSignals FAILURE]"
    "\<forall>r. mail wa r = mail ?p r @ replicate (count_list (successors (node ?p)) r)
       \<lparr>sender = name (node ?p), msg_signal_type = ''DEFAULT_SIGNAL'', timestamp = clock ?p,
         msg_status = Some FAILURE\<rparr>"
    by blast
  then have a: "\<exists>w'. loop_body success_fails ?p = (Returns Continue, w')
        \<and> calls w' = [PreTrigger, CheckSignals, PreExecution, Execute, OnSuccess,
             OnFailure (Some (HookError ''on_success'')), PostExecution, SendSignals FAILURE]
        \<and> mail w' ''B'' = [message_from ''A'' FAILURE]"
    by (intro exI [of _ wa]) (simp add: f message_from_def)
  from failure_after_execute_returned_true
    [OF r2 e2 t2 [folded sq], where schedule = "[]", THEN conjunct2, THEN conjunct2,
      THEN conjunct1, rule_format, OF h2 sq]
  obtain wb where "loop_body post_fails_once ?q = (Returns Continue, wb)"
    "calls wb = calls ?q @ [PreTrigger, CheckSignals, PreExecution, Execute]
       @ [OnSuccess, PostExecution]
       @ [OnFailure (Some (HookError ''post_execution'')), PostExecution, SendSignals FAILURE]"
    "\<forall>r. mail wb r = mail ?q r @ replicate (count_list (successors (node ?q)) r)
       \<lparr>sender = name (node ?q), msg_signal_type = ''DEFAULT_SIGNAL'', timestamp = clock ?q,
         msg_status = Some FAILURE\<rparr>"
    by blast
  then have b: "\<exists>w'. loop_body post_fails_once ?q = (Returns Continue, w')
        \<and> calls w' = [PreTrigger, CheckSignals, PreExecution, Execute, OnSuccess,
             PostExecution, OnFailure (Some (HookError ''post_execution'')), PostExecution,
             SendSignals FAILURE]
        \<and> mail w' ''B'' = [message_from ''A'' FAILURE]"
    by (intro exI [of _ wb]) (simp add: f message_from_def)
  from failure_after_execute_returned_true
    [OF r3 e3 t3 [folded sp], where schedule = "[]", THEN conjunct2, THEN conjunct2,
      THEN conjunct2, THEN conjunct2, THEN conjunct1, rule_format, OF h3]
  obtain wc where "run_loop post_fails [Idle] ?p = Died (HookError ''post_execution'') wc"
    "calls wc = calls ?p @ [PreTrigger, CheckSignals, PreExecution, Execute]
       @ [OnSuccess, PostExecution]
       @ [OnFailure (Some (HookError ''post_execution'')), PostExecution]"
    "mail wc = mail ?p"
    by blast
  then have c: "\<exists>w'. run_loop post_fails [Idle] ?p = Died (HookError ''post_execution'') w'
        \<and> calls w' = [PreTrigger, CheckSignals, PreExecution, Execute, OnSuccess,
             PostExecution, OnFailure (Some (HookError ''post_execution'')), PostExecution]
        \<and> mail w' ''B'' = []"
    by (intro exI [of _ wc]) (simp add: f)
  from failure_after_execute_returned_true
    [OF r4 e4 t4 [folded sd], where schedule = "[]", THEN conjunct2, THEN conjunct2,
      THEN conjunct2, THEN conjunct2, THEN conjunct2, rule_format, OF h4 v4]
  obtain wd where "run_loop default_hooks [Idle] ?d = Died ValidationError wd"
    "calls wd = calls ?d @ [PreTrigger, CheckSignals, PreExecution, Execute]
       @ [OnSuccess, PostExecution, SendSignals SUCCESS]
       @ [OnFailure (Some ValidationError), PostExecution, SendSignals FAILURE]"
    "mail wd = mail ?d"
    by blast
  then have d: "\<exists>w'. run_loop default_hooks [Idle] ?d = Died ValidationError w'
        \<and> calls w' = [PreTrigger, CheckSignals, PreExecution, Execute, OnSuccess,
             PostExecution, SendSignals SUCCESS, OnFailure (Some ValidationError),
             PostExecution, SendSignals FAILURE]
        \<and> mail w' ''B'' = []"
    by (intro exI [of _ wd]) (simp add: f)
  from r1 e1 t1 a t2 b c t4 d show ?thesis
    by (intro conjI)
qed

text \<open>
  The claim C10 as written fails in two ways. A node whose \<^verbatim>\<open>post_execution\<close> raises
  whenever it is called: \<^verbatim>\<open>execute\<close> returns true, \<^verbatim>\<open>on_success\<close> and \<^verbatim>\<open>on_failure\<close>
  both run, the second \<^verbatim>\<open>post_execution\<close> raises inside the handler, no FAILURE
  message reaches the successor \<open>B\<close> and \<^verbatim>\<open>run\<close> ends with the exception. And a node
  whose SUCCESS emission raises, here \<open>watcher\<close> with the hooks of \<^verbatim>\<open>BaseNode\<close>, triggered
  once: its signal type is \<^verbatim>\<open>None\<close>, so the SUCCESS message cannot be built,
  \<^verbatim>\<open>on_failure\<close> is called with the validation error, and the FAILURE message cannot
  be built either; nothing reaches \<open>B\<close> and \<^verbatim>\<open>run\<close> ends with the validation error.
\<close>

theorem post_execution_raises_twice_no_failure_sent:
  "hook_execute post_fails () = (Inr True, ())
   \<and> (case run post_fails [Idle, Idle] (fresh_worker producer ()) of
        Died e w' \<Rightarrow>
          e = HookError ''post_execution''
          \<and> calls w' = [StatusSet INIT, Setup, StatusSet RUNNING, PreTrigger, CheckSignals,
               PreExecution, Execute, OnSuccess, PostExecution,
               OnFailure (Some (HookError ''post_execution'')), PostExecution]
          \<and> mail w' ''B'' = []
      | _ \<Rightarrow> False)
   \<and> hook_execute default_hooks () = (Inr True, ())
   \<and> (case run default_hooks [Trigger, Idle] (fresh_worker watcher ()) of
        Died e w' \<Rightarrow>
          e = ValidationError
          \<and> calls w' = [StatusSet INIT, Setup, StatusSet RUNNING, PreTrigger, CheckSignals,
               PreExecution, Execute, OnSuccess, PostExecution, SendSignals SUCCESS,
               OnFailure (Some ValidationError), PostExecution, SendSignals FAILURE]
          \<and> mail w' ''B'' = []
      | _ \<Rightarrow> False)"
proof -
  have a: "hook_execute post_fails () = (Inr True, ())"
    by (simp add: post_fails_def default_hooks_def returns_value_def)
  have b: "(case run post_fails [Idle, Idle] (fresh_worker producer ()) of
        Died e w' \<Rightarrow>
          e = HookError ''post_execution''
          \<and> calls w' = [StatusSet INIT, Setup, StatusSet RUNNING, PreTrigger, CheckSignals,
               PreExecution, Execute, OnSuccess, PostExecution,
               OnFailure (Some (HookError ''post_execution'')), PostExecution]
          \<and> mail w' ''B'' = []
      | _ \<Rightarrow> False)"
    by (simp add: run_def post_fails_def default_hooks_def passes_def raises_def
      returns_value_def fresh_worker_def producer_fields call_hook_def assign_status_def
      apply_env_def loop_body_def running_branch_def then_do_def pausable_def
      pausable_wait_not_paused set_waiting_def run_check_signals_def check_signals_def
      execute_phase_def try_body_def failure_handler_def try_except_def)
  have c: "hook_execute default_hooks () = (Inr True, ())"
    by (simp add: default_hooks_def returns_value_def)
  have d: "(case run default_hooks [Trigger, Idle] (fresh_worker watcher ()) of
        Died e w' \<Rightarrow>
          e = ValidationError
          \<and> calls w' = [StatusSet INIT, Setup, StatusSet RUNNING, PreTrigger, CheckSignals,
               PreExecution, Execute, OnSuccess, PostExecution, SendSignals SUCCESS,
               OnFailure (Some ValidationError), PostExecution, SendSignals FAILURE]
          \<and> mail w' ''B'' = []
      | _ \<Rightarrow> False)"
    by (simp add: run_def default_hooks_def passes_def raises_def
      returns_value_def fresh_worker_def watcher_fields trigger_def call_hook_def
      assign_status_def
      apply_env_def loop_body_def running_branch_def then_do_def pausable_def
      pausable_wait_not_paused set_waiting_def run_check_signals_def check_signals_def
      execute_phase_def try_body_def failure_handler_def try_except_def send_signals_def
      signal_message_def Message_init_def validate_str_def)
  from a b c d show ?thesis
    by (intro conjI)
qed

section \<open>Properties of the resource node\<close>

lemma visited_fields:
  "event_is_set visited" "reference_count visited = 0"
  "\<not> event_is_set (ResourceNode_init ''R'' (PyStr ''DEFAULT_SIGNAL''))"
  by (simp_all add: visited_def exeternally_accessible_def reads_def ResourceNode_init_def
      BaseNode.extend_def ResourceNode.fields_def Let_def)

text \<open>
  C7, as the code has it. A method under \<^verbatim>\<open>await_references\<close> does not start while the
  event is clear. Once the event is set the method runs first, on the node as it is,
  with the event still set; the event is cleared after the method has returned, and
  the result of the method is returned, so that the next method under the guard
  does not start before the event is set again. If the method raises, the event is
  not cleared.
\<close>

theorem await_references_order:
  "(\<not> event_is_set s \<longrightarrow> await_references func s = None)
   \<and> (event_is_set s \<longrightarrow> func s = (Inr res, s') \<longrightarrow>
        await_references func s = Some (Inr res, s'\<lparr>event_is_set := False\<rparr>)
        \<and> await_references next_func (s'\<lparr>event_is_set := False\<rparr>) = None)
   \<and> (event_is_set s \<longrightarrow> func s = (Inl e, s') \<longrightarrow>
        await_references func s = Some (Inl e, s'))"
proof (intro conjI impI)
  assume "\<not> event_is_set s"
  then show "await_references func s = None"
    by (simp add: await_references_def)
next
  assume "event_is_set s" and "func s = (Inr res, s')"
  then show "await_references func s = Some (Inr res, s'\<lparr>event_is_set := False\<rparr>)"
    by (cases "event_is_set s'") (simp_all add: await_references_def)
next
  show "await_references next_func (s'\<lparr>event_is_set := False\<rparr>) = None"
    by (simp add: await_references_def)
next
  assume "event_is_set s" and "func s = (Inl e, s')"
  then show "await_references func s = Some (Inl e, s')"
    by (simp add: await_references_def)
qed

theorem await_references_order_witness:
  "\<not> event_is_set (ResourceNode_init ''R'' (PyStr ''DEFAULT_SIGNAL''))
   \<and> await_references reads (ResourceNode_init ''R'' (PyStr ''DEFAULT_SIGNAL'')) = None
   \<and> event_is_set visited
   \<and> reads visited = (Inr (), visited)
   \<and> await_references reads visited = Some (Inr (), visited\<lparr>event_is_set := False\<rparr>)
   \<and> await_references reads (visited\<lparr>event_is_set := False\<rparr>) = None
   \<and> update_fails visited = (Inl (HookError ''update''), visited)
   \<and> await_references update_fails visited = Some (Inl (HookError ''update''), visited)"
  using visited_fields(1,3)
    await_references_order [of "ResourceNode_init ''R'' (PyStr ''DEFAULT_SIGNAL'')" reads]
    await_references_order [of visited reads "()" visited reads]
    await_references_order [of visited update_fails _ visited reads "HookError ''update''"]
  by (simp add: reads_def update_fails_def)

text \<open>
  The claim C7 as written fails: the event is not cleared before the method runs. A
  reader has come and gone, so the event is set; a method under the guard that
  looks at the event while it runs finds it set, and the event is clear only
  afterwards.
\<close>

theorem method_runs_before_event_is_cleared:
  "event_is_set visited
   \<and> await_references observes_event visited = Some (Inr True, visited\<lparr>event_is_set := False\<rparr>)"
  by (simp add: await_references_def observes_event_def visited_fields)

section \<open>Properties of the pipeline\<close>

lemma edges_add_node: "g_edges (add_node v g) = g_edges g"
  by (simp add: add_node_def)

lemma nodes_add_node: "set (g_nodes (add_node v g)) = insert v (set (g_nodes g))"
  by (auto simp: add_node_def)

lemma edges_add_edge: "set (g_edges (add_edge u v g)) = insert (u, v) (set (g_edges g))"
  by (auto simp: add_edge_def Let_def edges_add_node)

lemma nodes_add_edge: "set (g_nodes (add_edge u v g)) = {u, v} \<union> set (g_nodes g)"
  by (auto simp: add_edge_def Let_def nodes_add_node)

lemma edges_add_edges_of:
  "set (g_edges (add_edges_of n g)) =
     set (g_edges g) \<union> {(p, node_name n) | p. p \<in> set (predecessors n)}"
proof -
  have "set (g_edges (fold (\<lambda>p. add_edge p v) ps g)) = set (g_edges g) \<union> {(p, v) | p. p \<in> set ps}"
    for ps v
    by (induction ps arbitrary: g) (auto simp: edges_add_edge)
  then show ?thesis by (simp add: add_edges_of_def)
qed

lemma nodes_add_edges_of:
  "set (g_nodes (add_edges_of n g)) =
     set (g_nodes g) \<union> (if predecessors n = [] then {} else insert (node_name n) (set (predecessors n)))"
proof -
  have "set (g_nodes (fold (\<lambda>p. add_edge p v) ps g)) =
      set (g_nodes g) \<union> (if ps = [] then {} else insert v (set ps))"
    for ps v
    by (induction ps arbitrary: g) (auto simp: nodes_add_edge)
  then show ?thesis by (simp add: add_edges_of_def)
qed

lemma edges_add_edges:
  "set (g_edges (add_edges ns g)) = set (g_edges g) \<union> predecessor_relation ns"
  unfolding add_edges_def
  by (induction ns arbitrary: g) (auto simp: edges_add_edges_of predecessor_relation_def)

lemma edges_add_nodes: "g_edges (add_nodes ns g) = g_edges g"
  unfolding add_nodes_def by (induction ns arbitrary: g) (auto simp: edges_add_node)

lemma edges_build_graph: "set (g_edges (build_graph ns)) = predecessor_relation ns"
  by (simp add: build_graph_def edges_add_edges edges_add_nodes empty_graph_def)

lemma closed_add_node: "closed_graph g \<Longrightarrow> closed_graph (add_node v g)"
  by (auto simp: closed_graph_def add_node_def list_all_iff)

lemma closed_add_edge: "closed_graph g \<Longrightarrow> closed_graph (add_edge u v g)"
  by (auto simp: closed_graph_def add_edge_def add_node_def list_all_iff Let_def)

lemma closed_build_graph: "closed_graph (build_graph ns)"
proof -
  have a: "closed_graph g \<Longrightarrow> closed_graph (add_nodes ms g)" for ms g
    unfolding add_nodes_def by (induction ms arbitrary: g) (auto simp: closed_add_node)
  have b: "closed_graph g \<Longrightarrow> closed_graph (fold (\<lambda>p. add_edge p v) ps g)" for ps v g
    by (induction ps arbitrary: g) (auto simp: closed_add_edge)
  have c: "closed_graph g \<Longrightarrow> closed_graph (add_edges ms g)" for ms g
    unfolding add_edges_def by (induction ms arbitrary: g) (auto simp: add_edges_of_def b)
  have "closed_graph empty_graph"
    by (simp add: closed_graph_def empty_graph_def)
  then show ?thesis
    by (simp add: build_graph_def a c)
qed



lemma predecessor_relationI:
  "n \<in> set ns \<Longrightarrow> p \<in> set (predecessors n) \<Longrightarrow> (p, node_name n) \<in> predecessor_relation ns"
  by (auto simp: predecessor_relation_def)

lemma Pipeline_init_Collection:
  "fst (Pipeline_init (Collection ns) logger) =
     (if \<not> is_directed_acyclic_graph (build_graph ns) then Inl InvalidNodeDependencyError
      else Inr \<lparr>graph = build_graph ns, nodes = the (topological_sort (build_graph ns))\<rparr>)"
  by (simp add: Pipeline_init_def build_graph_def Let_def)





lemma comes_before_intro: "comes_before x y (l1 @ x # l2 @ y # l3)"
  unfolding comes_before_def by (induction l1) auto

lemma comes_before_decomp:
  assumes "comes_before x y xs"
  shows "\<exists>l1 l2 l3. xs = l1 @ x # l2 @ y # l3"
proof -
  let ?d = "dropWhile (\<lambda>z. z \<noteq> x) xs"
  from assms have y: "y \<in> set (tl ?d)"
    by (simp add: comes_before_def)
  then have ne: "?d \<noteq> []" by (cases ?d) simp_all
  then have "hd ?d = x"
    using hd_dropWhile [of "\<lambda>z. z \<noteq> x" xs] by simp
  with ne have d: "?d = x # tl ?d"
    by (cases ?d) simp_all
  from y obtain l2 l3 where t: "tl ?d = l2 @ y # l3"
    using split_list by fastforce
  have "xs = takeWhile (\<lambda>z. z \<noteq> x) xs @ ?d"
    by simp
  also have "\<dots> = takeWhile (\<lambda>z. z \<noteq> x) xs @ x # l2 @ y # l3"
    using d t by simp
  finally show ?thesis by blast
qed

lemma comes_before_Cons:
  assumes "comes_before x y xs"
  shows "comes_before x y (z # xs)"
proof -
  from comes_before_decomp [OF assms] obtain l1 l2 l3 where "xs = l1 @ x # l2 @ y # l3"
    by blast
  then have "z # xs = (z # l1) @ x # l2 @ y # l3" by simp
  then show ?thesis
    using comes_before_intro [of x y "z # l1" l2 l3] by simp
qed

lemma topological_order_Nil: "topological_order es [] = Some []"
  by (subst topological_order.simps) simp

lemma topological_order_step:
  "remaining \<noteq> [] \<Longrightarrow>
   topological_order es remaining =
     (case find (ready es remaining) remaining of
        None \<Rightarrow> None
      | Some v \<Rightarrow> map_option (Cons v) (topological_order es (removeAll v remaining)))"
  by (subst topological_order.simps) simp

lemma topological_order_sound:
  assumes "topological_order es remaining = Some out"
  shows "set out = set remaining \<and> distinct out
    \<and> (\<forall>a b. (a, b) \<in> set es \<longrightarrow> a \<in> set remaining \<longrightarrow> b \<in> set remaining \<longrightarrow> comes_before a b out)"
  using assms
proof (induction es remaining arbitrary: out rule: topological_order.induct)
  case (1 es remaining)
  show ?case
  proof (cases "remaining = []")
    case True
    with "1.prems" show ?thesis by (simp add: topological_order_Nil)
  next
    case ne: False
    from "1.prems" obtain v out' where
      f: "find (ready es remaining) remaining = Some v"
      and rec: "topological_order es (removeAll v remaining) = Some out'"
      and out: "out = v # out'"
      unfolding topological_order_step [OF ne]
      by (auto split: option.splits)
    from f have vr: "v \<in> set remaining" and rv: "ready es remaining v"
      by (auto simp: find_Some_iff)
    note ih = "1.IH" [OF ne f rec]
    from ih have ih1: "set out' = set (removeAll v remaining)" by (rule conjunct1)
    from ih have ih2: "distinct out'" by (rule conjunct1 [OF conjunct2])
    from ih have ih3: "\<And>a b. (a, b) \<in> set es \<Longrightarrow> a \<in> set (removeAll v remaining) \<Longrightarrow>
        b \<in> set (removeAll v remaining) \<Longrightarrow> comes_before a b out'"
      by (simp only: conjunct2 [OF conjunct2])
    have s: "set out = set remaining"
      using ih1 vr by (auto simp: out)
    have d: "distinct out"
      using ih1 ih2 by (simp add: out)
    have o: "comes_before a b out"
      if "(a, b) \<in> set es" "a \<in> set remaining" "b \<in> set remaining" for a b
    proof -
      have "\<not> (snd (a, b) = v \<and> fst (a, b) \<in> set remaining)"
        using rv that(1) unfolding ready_def list_ex_iff by (rule_tac notI) blast
      with that(2) have bv: "b \<noteq> v" by simp
      show ?thesis
      proof (cases "a = v")
        case True
        have "b \<in> set out'" using ih1 that(3) bv by simp
        then show ?thesis by (simp add: comes_before_def out True)
      next
        case False
        with that bv have "comes_before a b out'"
          by (intro ih3) simp_all
        then show ?thesis unfolding out by (rule comes_before_Cons)
      qed
    qed
    show ?thesis
    proof (intro conjI allI impI)
      show "set out = set remaining" by (rule s)
      show "distinct out" by (rule d)
      show "comes_before a b out"
        if "(a, b) \<in> set es" "a \<in> set remaining" "b \<in> set remaining" for a b
        using that by (rule o)
    qed
  qed
qed

lemma exit_and_join_joinable:
  assumes "thread_of st v = Finished \<or> (thread_of st v = Alive \<and> ends_after_exit v)"
  shows "exit_and_join ends_after_exit v st =
     (Completed, st\<lparr>status_of := (status_of st)(v := STOPPING),
                    thread_of := (thread_of st)(v := Finished),
                    transcript := transcript st @ [ExitCalled v, Joined v]\<rparr>)"
proof -
  have "(thread_of st)(v := Finished) = thread_of st" if "thread_of st v = Finished"
    using that by auto
  with assms show ?thesis
    by (auto simp: exit_and_join_def thread_join_def node_exit_def)
qed

lemma for_each_exit_and_join:
  assumes "can_be_joined ends_after_exit st vs"
  shows "\<exists>st'. for_each (exit_and_join ends_after_exit) vs st = (Completed, st')
     \<and> transcript st' = transcript st @ concat (map (\<lambda>v. [ExitCalled v, Joined v]) vs)
     \<and> (\<forall>v. status_of st' v = (if v \<in> set vs then STOPPING else status_of st v))
     \<and> (\<forall>v. thread_of st' v = (if v \<in> set vs then Finished else thread_of st v))"
  using assms
proof (induction vs arbitrary: st)
  case Nil
  show ?case by simp
next
  case (Cons v vs)
  let ?st1 = "st\<lparr>status_of := (status_of st)(v := STOPPING),
                 thread_of := (thread_of st)(v := Finished),
                 transcript := transcript st @ [ExitCalled v, Joined v]\<rparr>"
  from Cons.prems have v: "thread_of st v = Finished \<or> (thread_of st v = Alive \<and> ends_after_exit v)"
    and rest: "can_be_joined ends_after_exit st vs"
    by (simp_all add: can_be_joined_def)
  have step: "exit_and_join ends_after_exit v st = (Completed, ?st1)"
    using v by (rule exit_and_join_joinable [of st v ends_after_exit])
  have "can_be_joined ends_after_exit ?st1 vs"
    using rest by (auto simp: can_be_joined_def list_all_iff)
  from Cons.IH [OF this] obtain st' where
    run: "for_each (exit_and_join ends_after_exit) vs ?st1 = (Completed, st')"
    and tr: "transcript st' = transcript ?st1 @ concat (map (\<lambda>v. [ExitCalled v, Joined v]) vs)"
    and ss: "\<forall>u. status_of st' u = (if u \<in> set vs then STOPPING else status_of ?st1 u)"
    and ts: "\<forall>u. thread_of st' u = (if u \<in> set vs then Finished else thread_of ?st1 u)"
    by blast
  have "for_each (exit_and_join ends_after_exit) (v # vs) st = (Completed, st')"
    by (simp add: step run)
  moreover have "transcript st' =
      transcript st @ concat (map (\<lambda>v. [ExitCalled v, Joined v]) (v # vs))"
    by (simp add: tr)
  moreover have "\<forall>u. status_of st' u = (if u \<in> set (v # vs) then STOPPING else status_of st u)"
    by (simp add: ss)
  moreover have "\<forall>u. thread_of st' u = (if u \<in> set (v # vs) then Finished else thread_of st u)"
    by (simp add: ts)
  ultimately show ?case by blast
qed

lemma terminate_nodes_joinable:
  assumes "can_be_joined ends_after_exit st (nodes p)"
  shows "\<exists>st'. terminate_nodes ends_after_exit p st = (Completed, st')
     \<and> transcript st' = transcript st @ [Printed ''Terminating nodes'']
         @ concat (map (\<lambda>v. [ExitCalled v, Joined v]) (rev (nodes p)))
         @ [Printed ''All nodes terminated'']
     \<and> (\<forall>v. status_of st' v = (if v \<in> set (nodes p) then STOPPING else status_of st v))
     \<and> (\<forall>v. thread_of st' v = (if v \<in> set (nodes p) then Finished else thread_of st v))"
proof -
  let ?st0 = "printed ''Terminating nodes'' st"
  have "can_be_joined ends_after_exit ?st0 (rev (nodes p))"
    using assms by (simp add: can_be_joined_def printed_def list_all_iff)
  from for_each_exit_and_join [OF this] obtain st1 where
    run: "for_each (exit_and_join ends_after_exit) (rev (nodes p)) ?st0 = (Completed, st1)"
    and tr: "transcript st1 =
      transcript ?st0 @ concat (map (\<lambda>v. [ExitCalled v, Joined v]) (rev (nodes p)))"
    and ss: "\<forall>u. status_of st1 u = (if u \<in> set (rev (nodes p)) then STOPPING else status_of ?st0 u)"
    and ts: "\<forall>u. thread_of st1 u = (if u \<in> set (rev (nodes p)) then Finished else thread_of ?st0 u)"
    by blast
  have "terminate_nodes ends_after_exit p st = (Completed, printed ''All nodes terminated'' st1)"
    by (simp add: terminate_nodes_def run)
  moreover have "transcript (printed ''All nodes terminated'' st1) =
      transcript st @ [Printed ''Terminating nodes'']
         @ concat (map (\<lambda>v. [ExitCalled v, Joined v]) (rev (nodes p)))
         @ [Printed ''All nodes terminated'']"
    by (simp add: printed_def tr)
  moreover have "\<forall>v. status_of (printed ''All nodes terminated'' st1) v =
      (if v \<in> set (nodes p) then STOPPING else status_of st v)"
    using ss by (simp add: printed_def)
  moreover have "\<forall>v. thread_of (printed ''All nodes terminated'' st1) v =
      (if v \<in> set (nodes p) then Finished else thread_of st v)"
    using ts by (simp add: printed_def)
  ultimately show ?thesis by blast
qed

lemma nodes_add_nodes:
  "set (g_nodes (add_nodes ns g)) = set (g_nodes g) \<union> node_name ` set ns"
  unfolding add_nodes_def by (induction ns arbitrary: g) (auto simp: nodes_add_node)

lemma nodes_add_edges_mono: "set (g_nodes g) \<subseteq> set (g_nodes (add_edges ns g))"
  unfolding add_edges_def
proof (induction ns arbitrary: g)
  case Nil
  show ?case by simp
next
  case (Cons n ns)
  have "set (g_nodes g) \<subseteq> set (g_nodes (add_edges_of n g))"
    by (simp add: nodes_add_edges_of)
  also have "\<dots> \<subseteq> set (g_nodes (fold add_edges_of ns (add_edges_of n g)))"
    by (rule Cons)
  finally show ?case by simp
qed

lemma names_in_build_graph: "node_name ` set ns \<subseteq> set (g_nodes (build_graph ns))"
  using nodes_add_edges_mono [of "add_nodes ns empty_graph" ns]
  by (auto simp: build_graph_def nodes_add_nodes)

lemma concat_pairs_append:
  "concat (map f (xs @ y # ys)) = concat (map f xs) @ f y @ concat (map f ys)"
  by simp

lemma reverse_order_in_transcript:
  assumes "comes_before a b vs"
  shows "comes_before (Joined b) (ExitCalled a)
     (pre @ concat (map (\<lambda>v. [ExitCalled v, Joined v]) (rev vs)) @ post)"
proof -
  let ?X = "\<lambda>l. concat (map (\<lambda>v. [ExitCalled v, Joined v]) l)"
  from comes_before_decomp [OF assms] obtain l1 l2 l3 where vs: "vs = l1 @ a # l2 @ b # l3"
    by blast
  have "pre @ ?X (rev vs) @ post =
      (pre @ ?X (rev l3) @ [ExitCalled b]) @ Joined b # ?X (rev l2)
        @ ExitCalled a # (Joined a # ?X (rev l1) @ post)"
    by (simp add: vs)
  then show ?thesis
    using comes_before_intro [of "Joined b" "ExitCalled a" "pre @ ?X (rev l3) @ [ExitCalled b]"
        "?X (rev l2)" "Joined a # ?X (rev l1) @ post"]
    by simp
qed

text \<open>
  C8, as the code has it. The pipeline was constructed from a collection of nodes, and
  the thread of every node of it can be joined: it has ended, or it is alive and its
  \<^verbatim>\<open>run\<close> method returns once \<^verbatim>\<open>exit\<close> has been called. Then \<^verbatim>\<open>terminate_nodes\<close>
  returns. It has gone through the stored order backwards and, node by node, called
  \<^verbatim>\<open>exit\<close> and then \<^verbatim>\<open>join\<close> before it touched the next node. The stored order holds
  every node once and is topological, so for every node and each of its predecessors
  the node has been signalled and joined before the predecessor is signalled; every
  node of the pipeline has been given the status STOPPING and its thread has ended.
\<close>

theorem terminate_in_reverse_topological_order:
  assumes "Pipeline_init (Collection ns) logger = (Inr p, objs)"
    and "can_be_joined ends_after_exit st (nodes p)"
  shows "\<exists>st'. terminate_nodes ends_after_exit p st = (Completed, st')
     \<and> transcript st' =
         transcript st @ [Printed ''Terminating nodes'']
           @ concat (map (\<lambda>v. [ExitCalled v, Joined v]) (rev (nodes p)))
           @ [Printed ''All nodes terminated'']
     \<and> distinct (nodes p)
     \<and> node_name ` set ns \<subseteq> set (nodes p)
     \<and> (\<forall>n q. n \<in> set ns \<longrightarrow> q \<in> set (predecessors n) \<longrightarrow>
          comes_before (Joined (node_name n)) (ExitCalled q) (transcript st'))
     \<and> (\<forall>v \<in> set (nodes p). status_of st' v = STOPPING \<and> thread_of st' v = Finished)"
proof -
  let ?g = "build_graph ns"
  from assms(1) have "fst (Pipeline_init (Collection ns) logger) = Inr p"
    by simp
  then have dag: "is_directed_acyclic_graph ?g"
    and p: "p = \<lparr>graph = ?g, nodes = the (topological_sort ?g)\<rparr>"
    unfolding Pipeline_init_Collection by (auto split: if_splits)
  from dag p have srt: "topological_order (g_edges ?g) (g_nodes ?g) = Some (nodes p)"
    by (auto simp: is_directed_acyclic_graph_def topological_sort_def)
  note snd = topological_order_sound [OF srt]
  from snd have s1: "set (nodes p) = set (g_nodes ?g)" by (rule conjunct1)
  from snd have s2: "distinct (nodes p)" by (rule conjunct1 [OF conjunct2])
  from snd have s3: "\<And>a b. (a, b) \<in> set (g_edges ?g) \<Longrightarrow> a \<in> set (g_nodes ?g) \<Longrightarrow>
      b \<in> set (g_nodes ?g) \<Longrightarrow> comes_before a b (nodes p)"
    by (simp only: conjunct2 [OF conjunct2])
  have names: "node_name ` set ns \<subseteq> set (nodes p)"
    using names_in_build_graph [of ns] by (simp add: s1)
  from terminate_nodes_joinable [OF assms(2)] obtain st' where
    run: "terminate_nodes ends_after_exit p st = (Completed, st')"
    and tr: "transcript st' = transcript st @ [Printed ''Terminating nodes'']
         @ concat (map (\<lambda>v. [ExitCalled v, Joined v]) (rev (nodes p)))
         @ [Printed ''All nodes terminated'']"
    and ss: "\<forall>v. status_of st' v = (if v \<in> set (nodes p) then STOPPING else status_of st v)"
    and ts: "\<forall>v. thread_of st' v = (if v \<in> set (nodes p) then Finished else thread_of st v)"
    by blast
  have order: "comes_before (Joined (node_name n)) (ExitCalled q) (transcript st')"
    if "n \<in> set ns" and "q \<in> set (predecessors n)" for n q
  proof -
    have e: "(q, node_name n) \<in> set (g_edges ?g)"
      using that by (simp add: edges_build_graph predecessor_relationI)
    then have "q \<in> set (g_nodes ?g)" and "node_name n \<in> set (g_nodes ?g)"
      using closed_build_graph [of ns] by (auto simp: closed_graph_def list_all_iff)
    with e have "comes_before q (node_name n) (nodes p)"
      by (intro s3)
    from reverse_order_in_transcript [OF this,
        of "transcript st @ [Printed ''Terminating nodes'']" "[Printed ''All nodes terminated'']"]
    show ?thesis
      by (simp add: tr)
  qed
  have fin: "\<forall>v \<in> set (nodes p). status_of st' v = STOPPING \<and> thread_of st' v = Finished"
    using ss ts by simp
  from run tr s2 names order fin show ?thesis
    by blast
qed

lemma chain3_from_list:
  "Pipeline_init (Collection chain3) None =
     (Inr chain_from_list,
      [(pipeline_node ''C'' [''B''])\<lparr>node_successors := []\<rparr>,
       (pipeline_node ''B'' [''A''])\<lparr>node_successors := [''C'']\<rparr>,
       (pipeline_node ''A'' [])\<lparr>node_successors := [''B'']\<rparr>])"
  by code_simp

lemma launched_fields:
  "launch_nodes chain_from_list not_started = (Completed, launched)"
  "transcript launched = [Started ''A'', Started ''B'', Started ''C'']"
  "thread_of launched ''A'' = Alive" "thread_of launched ''B'' = Alive"
  "thread_of launched ''C'' = Alive"
  by (simp_all add: launched_def launch_nodes_def chain_from_list_def not_started_def
      thread_start_def)

theorem terminate_in_reverse_topological_order_witness:
  "fst (Pipeline_init (Collection chain3) None) = Inr chain_from_list
   \<and> launch_nodes chain_from_list not_started = (Completed, launched)
   \<and> can_be_joined all_end launched (nodes chain_from_list)
   \<and> (\<exists>st'. terminate_nodes all_end chain_from_list launched = (Completed, st')
        \<and> transcript st' =
            [Started ''A'', Started ''B'', Started ''C'', Printed ''Terminating nodes'',
             ExitCalled ''C'', Joined ''C'', ExitCalled ''B'', Joined ''B'',
             ExitCalled ''A'', Joined ''A'', Printed ''All nodes terminated'']
        \<and> comes_before (Joined ''B'') (ExitCalled ''A'') (transcript st')
        \<and> map (status_of st') [''A'', ''B'', ''C''] = [STOPPING, STOPPING, STOPPING]
        \<and> map (thread_of st') [''A'', ''B'', ''C''] = [Finished, Finished, Finished])"
proof -
  have b: "pipeline_node ''B'' [''A''] \<in> set chain3"
    and a: "''A'' \<in> set (predecessors (pipeline_node ''B'' [''A'']))"
    and nb: "node_name (pipeline_node ''B'' [''A'']) = ''B''"
    by (simp_all add: chain3_def pipeline_node_def)
  have n: "nodes chain_from_list = [''A'', ''B'', ''C'']"
    by (simp add: chain_from_list_def)
  have j: "can_be_joined all_end launched (nodes chain_from_list)"
    by (simp add: can_be_joined_def n launched_fields all_end_def)
  from terminate_in_reverse_topological_order [OF chain3_from_list j]
  obtain st' where run: "terminate_nodes all_end chain_from_list launched = (Completed, st')"
    and tr: "transcript st' =
         transcript launched @ [Printed ''Terminating nodes'']
           @ concat (map (\<lambda>v. [ExitCalled v, Joined v]) (rev (nodes chain_from_list)))
           @ [Printed ''All nodes terminated'']"
    and order: "\<forall>n q. n \<in> set chain3 \<longrightarrow> q \<in> set (predecessors n) \<longrightarrow>
          comes_before (Joined (node_name n)) (ExitCalled q) (transcript st')"
    and fin: "\<forall>v \<in> set (nodes chain_from_list).
          status_of st' v = STOPPING \<and> thread_of st' v = Finished"
    by blast
  from order b a
  have "comes_before (Joined (node_name (pipeline_node ''B'' [''A''])))
      (ExitCalled ''A'') (transcript st')"
    by blast
  then have c: "comes_before (Joined ''B'') (ExitCalled ''A'') (transcript st')"
    by (simp only: nb)
  have t: "transcript st' =
            [Started ''A'', Started ''B'', Started ''C'', Printed ''Terminating nodes'',
             ExitCalled ''C'', Joined ''C'', ExitCalled ''B'', Joined ''B'',
             ExitCalled ''A'', Joined ''A'', Printed ''All nodes terminated'']"
    by (simp add: tr n launched_fields)
  have s: "map (status_of st') [''A'', ''B'', ''C''] = [STOPPING, STOPPING, STOPPING]"
    and f: "map (thread_of st') [''A'', ''B'', ''C''] = [Finished, Finished, Finished]"
    using fin by (simp_all add: n)
  have i: "fst (Pipeline_init (Collection chain3) None) = Inr chain_from_list"
    by (simp add: chain3_from_list)
  from run t c s f have "\<exists>st'. terminate_nodes all_end chain_from_list launched = (Completed, st')
        \<and> transcript st' =
            [Started ''A'', Started ''B'', Started ''C'', Printed ''Terminating nodes'',
             ExitCalled ''C'', Joined ''C'', ExitCalled ''B'', Joined ''B'',
             ExitCalled ''A'', Joined ''A'', Printed ''All nodes terminated'']
        \<and> comes_before (Joined ''B'') (ExitCalled ''A'') (transcript st')
        \<and> map (status_of st') [''A'', ''B'', ''C''] = [STOPPING, STOPPING, STOPPING]
        \<and> map (thread_of st') [''A'', ''B'', ''C''] = [Finished, Finished, Finished]"
    by (intro exI [of _ st'] conjI)
  with i launched_fields(1) j show ?thesis
    by (intro conjI)
qed

text \<open>
  The claim C8 as written fails for pipelines that were constructed. The chain
  \<open>A \<rightarrow> B \<rightarrow> C\<close> handed over as a generator gives a pipeline without edges that keeps
  the nodes in the order they came in, \<open>C\<close>, \<open>B\<close>, \<open>A\<close>; after the launch
  \<^verbatim>\<open>terminate_nodes\<close> signals and joins \<open>A\<close> first, so \<open>A\<close> is signalled before its
  successor \<open>B\<close> has been joined. The pipeline of the same chain handed over as a list,
  when no thread has been started: \<open>C\<close> is signalled, \<^verbatim>\<open>join\<close> raises
  \<^verbatim>\<open>RuntimeError\<close>, and \<open>B\<close> and \<open>A\<close> are never signalled. And the same pipeline after
  the launch, when \<open>C\<close> is a barrier whose \<^verbatim>\<open>run\<close> never returns: \<open>C\<close> is signalled,
  \<^verbatim>\<open>join\<close> does not return, and \<open>B\<close> and \<open>A\<close> are never signalled.
\<close>

theorem terminate_out_of_order_or_incomplete:
  "fst (Pipeline_init (Iterator chain3) None) = Inr chain_from_generator
   \<and> pipeline_node ''B'' [''A''] \<in> set chain3
   \<and> ''A'' \<in> set (predecessors (pipeline_node ''B'' [''A'']))
   \<and> fst (terminate_nodes all_end chain_from_generator launched) = Completed
   \<and> transcript (snd (terminate_nodes all_end chain_from_generator launched)) =
        [Started ''A'', Started ''B'', Started ''C'', Printed ''Terminating nodes'',
         ExitCalled ''A'', Joined ''A'', ExitCalled ''B'', Joined ''B'',
         ExitCalled ''C'', Joined ''C'', Printed ''All nodes terminated'']
   \<and> \<not> comes_before (Joined ''B'') (ExitCalled ''A'')
        (transcript (snd (terminate_nodes all_end chain_from_generator launched)))
   \<and> fst (Pipeline_init (Collection chain3) None) = Inr chain_from_list
   \<and> fst (terminate_nodes all_end chain_from_list not_started) = Failed RuntimeError
   \<and> transcript (snd (terminate_nodes all_end chain_from_list not_started)) =
        [Printed ''Terminating nodes'', ExitCalled ''C'']
   \<and> fst (terminate_nodes barrier_at_C chain_from_list launched) = Hangs
   \<and> transcript (snd (terminate_nodes barrier_at_C chain_from_list launched)) =
        [Started ''A'', Started ''B'', Started ''C'', Printed ''Terminating nodes'',
         ExitCalled ''C'']"
proof -
  have g: "fst (Pipeline_init (Iterator chain3) None) = Inr chain_from_generator"
    by code_simp
  have b: "pipeline_node ''B'' [''A''] \<in> set chain3"
    and a: "''A'' \<in> set (predecessors (pipeline_node ''B'' [''A'']))"
    by (simp_all add: chain3_def pipeline_node_def)
  have t1: "terminate_nodes all_end chain_from_generator launched =
      (Completed,
       \<lparr>status_of = (\<lambda>_. OFF)(''A'' := STOPPING, ''B'' := STOPPING, ''C'' := STOPPING),
        thread_of = (\<lambda>_. NotStarted)(''A'' := Alive, ''B'' := Alive, ''C'' := Alive,
          ''A'' := Finished, ''B'' := Finished, ''C'' := Finished),
        transcript = [Started ''A'', Started ''B'', Started ''C'', Printed ''Terminating nodes'',
         ExitCalled ''A'', Joined ''A'', ExitCalled ''B'', Joined ''B'',
         ExitCalled ''C'', Joined ''C'', Printed ''All nodes terminated'']\<rparr>)"
    by (simp add: terminate_nodes_def chain_from_generator_def launched_def launch_nodes_def
        chain_from_list_def not_started_def thread_start_def exit_and_join_def node_exit_def
        thread_join_def printed_def all_end_def)
  have c: "\<not> comes_before (Joined ''B'') (ExitCalled ''A'')
        [Started ''A'', Started ''B'', Started ''C'', Printed ''Terminating nodes'',
         ExitCalled ''A'', Joined ''A'', ExitCalled ''B'', Joined ''B'',
         ExitCalled ''C'', Joined ''C'', Printed ''All nodes terminated'']"
    by (simp add: comes_before_def)
  have l: "fst (Pipeline_init (Collection chain3) None) = Inr chain_from_list"
    by (simp add: chain3_from_list)
  have t2: "terminate_nodes all_end chain_from_list not_started =
      (Failed RuntimeError,
       \<lparr>status_of = (\<lambda>_. OFF)(''C'' := STOPPING), thread_of = (\<lambda>_. NotStarted),
        transcript = [Printed ''Terminating nodes'', ExitCalled ''C'']\<rparr>)"
    by (simp add: terminate_nodes_def chain_from_list_def not_started_def exit_and_join_def
        node_exit_def thread_join_def printed_def)
  have t3: "fst (terminate_nodes barrier_at_C chain_from_list launched) = Hangs"
    "transcript (snd (terminate_nodes barrier_at_C chain_from_list launched)) =
        [Started ''A'', Started ''B'', Started ''C'', Printed ''Terminating nodes'',
         ExitCalled ''C'']"
    by (simp_all add: terminate_nodes_def launched_def launch_nodes_def
        chain_from_list_def not_started_def thread_start_def exit_and_join_def node_exit_def
        thread_join_def printed_def barrier_at_C_def)
  from g b a c l t3 show ?thesis
    by (simp add: t1 t2)
qed

section \<open>Properties of the barrier\<close>

lemma run_follows_protocol:
  "four_phase b FanIn (AndAndNode_run b AwaitPredecessors views)"
  "four_phase b BackAck (AndAndNode_run b AwaitSuccessors views)"
proof (induction views)
  case Nil
  { case 1 show ?case by simp next case 2 show ?case by simp }
next
  case (Cons v views)
  { case 1
    show ?case
      using Cons
      by (simp add: check_predecessors_signals_def signal_successors_def)
  next
    case 2
    show ?case
      using Cons
      by (simp add: check_successors_signals_def signal_predecessors_def) }
qed

lemma run_while_predecessors_missing:
  "list_all (\<lambda>v. \<not> check_predecessors_signals b v) fs \<Longrightarrow>
   AndAndNode_run b AwaitPredecessors (fs @ rest) =
     waiting_for_predecessors fs @ AndAndNode_run b AwaitPredecessors rest"
  by (induction fs) (auto simp: waiting_for_predecessors_def)

lemma run_while_successors_missing:
  "list_all (\<lambda>v. \<not> check_successors_signals b v) fs \<Longrightarrow>
   AndAndNode_run b AwaitSuccessors (fs @ rest) =
     waiting_for_successors fs @ AndAndNode_run b AwaitSuccessors rest"
  by (induction fs) (auto simp: waiting_for_successors_def)

text \<open>
  C9. Whatever the barrier gets to see, what it does is accepted by the four-phase
  protocol: SUCCESS goes to the successors only after a check that found SUCCESS
  from every predecessor, and back to the predecessors only after a check that
  found SUCCESS from every successor. And a pass of the loop is exactly the four
  phases in order: the checks that fail, each followed by a sleep; the check of the
  predecessors that succeeds; SUCCESS to every successor; the checks of the
  successors that fail; the one that succeeds; SUCCESS to every predecessor; then
  the loop starts again.
\<close>

theorem barrier_four_phases_in_order:
  "four_phase b FanIn (AndAndNode_run b AwaitPredecessors views)
   \<and> (list_all (\<lambda>v. \<not> check_predecessors_signals b v) fs1 \<longrightarrow>
      check_predecessors_signals b t1 \<longrightarrow>
      list_all (\<lambda>v. \<not> check_successors_signals b v) fs2 \<longrightarrow>
      check_successors_signals b t2 \<longrightarrow>
      AndAndNode_run b AwaitPredecessors (fs1 @ t1 # fs2 @ t2 # rest) =
        waiting_for_predecessors fs1
        @ [CheckedPredecessors t1,
           Logged ''all resource nodes have finished updating its state.'',
           SignalledSuccessors Result_SUCCESS (barrier_successors b)]
        @ waiting_for_successors fs2
        @ [CheckedSuccessors t2,
           Logged ''all action nodes have finished using the current state.'',
           SignalledPredecessors Result_SUCCESS (barrier_predecessors b)]
        @ AndAndNode_run b AwaitPredecessors rest)"
  by (simp add: run_follows_protocol run_while_predecessors_missing
      run_while_successors_missing signal_successors_def signal_predecessors_def)

theorem barrier_four_phases_in_order_witness:
  "list_all (\<lambda>v. \<not> check_predecessors_signals fan_barrier v) [nothing_yet]
   \<and> check_predecessors_signals fan_barrier producers_done
   \<and> list_all (\<lambda>v. \<not> check_successors_signals fan_barrier v) [one_consumer_done]
   \<and> check_successors_signals fan_barrier consumers_done
   \<and> AndAndNode_run fan_barrier AwaitPredecessors
        [nothing_yet, producers_done, one_consumer_done, consumers_done] =
       [CheckedPredecessors nothing_yet, Slept,
        CheckedPredecessors producers_done,
        Logged ''all resource nodes have finished updating its state.'',
        SignalledSuccessors Result_SUCCESS [''C1'', ''C2''],
        CheckedSuccessors one_consumer_done, Slept,
        CheckedSuccessors consumers_done,
        Logged ''all action nodes have finished using the current state.'',
        SignalledPredecessors Result_SUCCESS [''P1'', ''P2'', ''P3'']]
   \<and> four_phase fan_barrier FanIn
        (AndAndNode_run fan_barrier AwaitPredecessors
          [nothing_yet, producers_done, one_consumer_done, consumers_done])"
proof -
  have 1: "list_all (\<lambda>v. \<not> check_predecessors_signals fan_barrier v) [nothing_yet]"
    by (simp add: check_predecessors_signals_def all_success_def fan_barrier_def nothing_yet_def)
  have 2: "check_predecessors_signals fan_barrier producers_done"
    by (simp add: check_predecessors_signals_def all_success_def fan_barrier_def
        producers_done_def)
  have 3: "list_all (\<lambda>v. \<not> check_successors_signals fan_barrier v) [one_consumer_done]"
    by (simp add: check_successors_signals_def all_success_def fan_barrier_def
        one_consumer_done_def)
  have 4: "check_successors_signals fan_barrier consumers_done"
    by (simp add: check_successors_signals_def all_success_def fan_barrier_def
        consumers_done_def)
  have s: "barrier_successors fan_barrier = [''C1'', ''C2'']"
    "barrier_predecessors fan_barrier = [''P1'', ''P2'', ''P3'']"
    by (simp_all add: fan_barrier_def)
  note th = barrier_four_phases_in_order
    [of fan_barrier "[nothing_yet, producers_done, one_consumer_done, consumers_done]"
        "[nothing_yet]" producers_done "[one_consumer_done]" consumers_done "[]"]
  from th have a: "four_phase fan_barrier FanIn
      (AndAndNode_run fan_barrier AwaitPredecessors
        [nothing_yet, producers_done, one_consumer_done, consumers_done])"
    by (rule conjunct1)
  from th 1 2 3 4 have "AndAndNode_run fan_barrier AwaitPredecessors
      ([nothing_yet] @ producers_done # [one_consumer_done] @ consumers_done # []) =
        waiting_for_predecessors [nothing_yet]
        @ [CheckedPredecessors producers_done,
           Logged ''all resource nodes have finished updating its state.'',
           SignalledSuccessors Result_SUCCESS (barrier_successors fan_barrier)]
        @ waiting_for_successors [one_consumer_done]
        @ [CheckedSuccessors consumers_done,
           Logged ''all action nodes have finished using the current state.'',
           SignalledPredecessors Result_SUCCESS (barrier_predecessors fan_barrier)]
        @ AndAndNode_run fan_barrier AwaitPredecessors []"
    by blast
  then have b: "AndAndNode_run fan_barrier AwaitPredecessors
        [nothing_yet, producers_done, one_consumer_done, consumers_done] =
       [CheckedPredecessors nothing_yet, Slept,
        CheckedPredecessors producers_done,
        Logged ''all resource nodes have finished updating its state.'',
        SignalledSuccessors Result_SUCCESS [''C1'', ''C2''],
        CheckedSuccessors one_consumer_done, Slept,
        CheckedSuccessors consumers_done,
        Logged ''all action nodes have finished using the current state.'',
        SignalledPredecessors Result_SUCCESS [''P1'', ''P2'', ''P3'']]"
    by (simp only: s waiting_for_predecessors_def waiting_for_successors_def
        AndAndNode_run.simps list.map concat.simps append.simps)
  from 1 2 3 4 b a show ?thesis
    by (intro conjI)
qed

section \<open>Further properties of the code\<close>

text \<open>
  The reduction of the XOR branch by the number of values: none raises
  \<^verbatim>\<open>TypeError\<close>, one is returned as it is, two or more give false.
\<close>

theorem reduce_xor_values:
  "reduce_xor [] = Inl TypeError
   \<and> reduce_xor [v] = Inr v
   \<and> reduce_xor (v # w # rest) = Inr False"
  by (simp add: reduce_xor_def foldl_xor_step)

text \<open>
  After the queue has been drained, the received-signal map holds under each sender
  the last message of that sender in the queue, and is unchanged for a sender with no
  message in the queue.
\<close>

theorem drain_keeps_latest_message:
  "drain queue received s =
     (case latest_from queue s of None \<Rightarrow> received s | Some m \<Rightarrow> Some m)"
  by (simp add: drain_latest drained_map_def)

text \<open>
  The gate \<^verbatim>\<open>And(A1, Or(A2, Not(A3)))\<close> is true with SUCCESS from \<open>A1\<close> and FAILURE
  from \<open>A2\<close> and \<open>A3\<close>, and false once \<open>A3\<close> reports SUCCESS.
\<close>

theorem boolean_gate_scenario:
  "evaluate gate_of_three
     [''A1'' \<mapsto> message_from ''A1'' SUCCESS, ''A2'' \<mapsto> message_from ''A2'' FAILURE,
      ''A3'' \<mapsto> message_from ''A3'' FAILURE] = Inr True
   \<and> evaluate gate_of_three
     [''A1'' \<mapsto> message_from ''A1'' SUCCESS, ''A2'' \<mapsto> message_from ''A2'' FAILURE,
      ''A3'' \<mapsto> message_from ''A3'' SUCCESS] = Inr False"
  by (simp add: gate_of_three_def And_ast_def Or_ast_def Not_ast_def apply_operation_def
      leaf_value_def message_from_def)

text \<open>
  A pausable method does not start while the status is PAUSED, and is the method
  itself otherwise.
\<close>

theorem pausable_blocks_while_paused:
  "pausable f w = (if status (node w) = PAUSED then (Blocks, w) else f w)"
  by (simp add: pausable_def pausable_wait_paused pausable_wait_not_paused)

text \<open>
  \<^verbatim>\<open>send_signals\<close> of a node whose signal type is a string returns, and the queue of
  every node grows by one message for each time the node stands in the successor
  list: by one for a successor, by none for any other node. With any other signal
  type the message cannot be built: \<^verbatim>\<open>send_signals\<close> raises the validation error and
  no queue changes.
\<close>

theorem send_signals_puts_one_message_per_successor:
  "calls (snd (send_signals st w)) = calls w @ [SendSignals st]
   \<and> (case signal_type (node w) of
        PyStr s \<Rightarrow>
          fst (send_signals st w) = Returns ()
          \<and> (\<forall>r. mail (snd (send_signals st w)) r =
                mail w r @ replicate (count_list (successors (node w)) r)
                  \<lparr>sender = name (node w), msg_signal_type = s, timestamp = clock w,
                    msg_status = Some st\<rparr>)
      | PyNone \<Rightarrow>
          fst (send_signals st w) = Raises ValidationError
          \<and> mail (snd (send_signals st w)) = mail w
      | PyObject c \<Rightarrow>
          fst (send_signals st w) = Raises ValidationError
          \<and> mail (snd (send_signals st w)) = mail w)"
  by (cases "signal_type (node w)")
    (simp_all add: send_signals_def signal_message_def Message_init_def validate_str_def
      put_all_count)

text \<open>
  A node with the default hooks runs one cycle and is then stopped from outside: it
  sends SUCCESS to its successor, runs \<^verbatim>\<open>on_exit\<close>, takes the status EXITED, and
  \<^verbatim>\<open>run\<close> returns.
\<close>

theorem stop_runs_on_exit_and_returns:
  "(case run default_hooks [Idle, Stop] (fresh_worker producer ()) of
      Returned w' \<Rightarrow>
        status (node w') = EXITED
        \<and> calls w' = [StatusSet INIT, Setup, StatusSet RUNNING, PreTrigger, CheckSignals,
             PreExecution, Execute, OnSuccess, PostExecution, SendSignals SUCCESS,
             StatusSet STOPPING, OnExit, StatusSet EXITED]
        \<and> mail w' ''B'' = [message_from ''A'' SUCCESS]
    | _ \<Rightarrow> False)"
  by (simp add: run_def default_hooks_def passes_def returns_value_def fresh_worker_def
      producer_fields call_hook_def assign_status_def apply_env_def loop_body_def
      running_branch_def then_do_def pausable_def pausable_wait_not_paused set_waiting_def
      run_check_signals_def check_signals_def execute_phase_def try_body_def
      failure_handler_def try_except_def send_signals_def put_all_def signal_message_def
      Message_init_def validate_str_def message_from_def run_reset_trigger_def
      reset_trigger_def exit_check_def continue_stmt_def)


end
